theory Spec2Isabelle
  imports Main "HOL-Library.Word"
begin

unbundle bit_operations_syntax

section \<open>Text and bytes\<close>

text \<open>
  The notebook runs on Python 3 (kernel \<^verbatim>\<open>python3\<close>). A Python \<^verbatim>\<open>str\<close> is a sequence of
  Unicode code points, modelled as the list of their numbers; a \<^verbatim>\<open>bytes\<close> object is a list
  of 8-bit words. \<open>ascii\<close> turns a literal of the theory into such a text.
\<close>

type_synonym str = "nat list"
type_synonym byte = "8 word"

definition ascii :: "string \<Rightarrow> str" where
  "ascii s = map of_char s"

definition hexdigit :: "nat \<Rightarrow> nat" where
  "hexdigit d = (if d < 10 then 48 + d else 87 + d)"

section \<open>\<^verbatim>\<open>base64.b64encode\<close>\<close>

text \<open>
  \<^verbatim>\<open>base64.b64encode(s)\<close> is \<^verbatim>\<open>binascii.b2a_base64(s, newline=False)\<close>: every three bytes give
  four characters of the table, a rest of one or two bytes is padded with \<^verbatim>\<open>=\<close>, and no
  line break is inserted. The result is again a \<^verbatim>\<open>bytes\<close> object.
\<close>

definition table_b2a_base64 :: "nat \<Rightarrow> nat" where
  "table_b2a_base64 i =
     (if i < 26 then 65 + i
      else if i < 52 then 97 + (i - 26)
      else if i < 62 then 48 + (i - 52)
      else if i = 62 then 43
      else 47)"

definition b2a :: "byte \<Rightarrow> byte" where
  "b2a i = of_nat (table_b2a_base64 (unat i))"

definition sextet1 :: "byte \<Rightarrow> byte" where
  "sextet1 a = drop_bit 2 a"

definition sextet2 :: "byte \<Rightarrow> byte \<Rightarrow> byte" where
  "sextet2 a b = push_bit 4 (a AND 3) OR drop_bit 4 b"

definition sextet3 :: "byte \<Rightarrow> byte \<Rightarrow> byte" where
  "sextet3 b c = push_bit 2 (b AND 15) OR drop_bit 6 c"

definition sextet4 :: "byte \<Rightarrow> byte" where
  "sextet4 c = c AND 63"

fun b64encode :: "byte list \<Rightarrow> byte list" where
  "b64encode [] = []"
| "b64encode [a] = [b2a (sextet1 a), b2a (sextet2 a 0), 61, 61]"
| "b64encode [a, b] = [b2a (sextet1 a), b2a (sextet2 a b), b2a (sextet3 b 0), 61]"
| "b64encode (a # b # c # rest) =
     [b2a (sextet1 a), b2a (sextet2 a b), b2a (sextet3 b c), b2a (sextet4 c)] @ b64encode rest"

text \<open>
  The decoder the claims about decoding are measured against: base64 of RFC 4648 with
  padding, over the same table, rejecting every character outside the alphabet
  (\<^verbatim>\<open>base64.b64decode(s, validate=True)\<close>).
\<close>

definition table_a2b_base64 :: "nat \<Rightarrow> byte option" where
  "table_a2b_base64 c =
     (if 65 \<le> c \<and> c \<le> 90 then Some (of_nat (c - 65))
      else if 97 \<le> c \<and> c \<le> 122 then Some (of_nat (c - 71))
      else if 48 \<le> c \<and> c \<le> 57 then Some (of_nat (c + 4))
      else if c = 43 then Some 62
      else if c = 47 then Some 63
      else None)"

definition octet1 :: "byte \<Rightarrow> byte \<Rightarrow> byte" where
  "octet1 i1 i2 = push_bit 2 i1 OR drop_bit 4 i2"

definition octet2 :: "byte \<Rightarrow> byte \<Rightarrow> byte" where
  "octet2 i2 i3 = push_bit 4 i2 OR drop_bit 2 i3"

definition octet3 :: "byte \<Rightarrow> byte \<Rightarrow> byte" where
  "octet3 i3 i4 = push_bit 6 i3 OR i4"

fun b64decode :: "str \<Rightarrow> byte list option" where
  "b64decode [] = Some []"
| "b64decode (c1 # c2 # c3 # c4 # rest) =
     (case (table_a2b_base64 c1, table_a2b_base64 c2) of
        (Some i1, Some i2) \<Rightarrow>
          if c3 = 61 \<and> c4 = 61 then (if rest = [] then Some [octet1 i1 i2] else None)
          else
            (case table_a2b_base64 c3 of
               None \<Rightarrow> None
             | Some i3 \<Rightarrow>
                 if c4 = 61
                 then (if rest = [] then Some [octet1 i1 i2, octet2 i2 i3] else None)
                 else
                   (case table_a2b_base64 c4 of
                      None \<Rightarrow> None
                    | Some i4 \<Rightarrow>
                        (case b64decode rest of
                           None \<Rightarrow> None
                         | Some bs \<Rightarrow>
                             Some (octet1 i1 i2 # octet2 i2 i3 # octet3 i3 i4 # bs))))
      | _ \<Rightarrow> None)"
| "b64decode _ = None"

section \<open>\<^verbatim>\<open>"{0}".format(encoded)\<close>: the \<^verbatim>\<open>repr\<close> of a bytes object\<close>

text \<open>
  \<^verbatim>\<open>encoded\<close> is a bytes object, so \<^verbatim>\<open>"{0}".format(encoded)\<close> is \<^verbatim>\<open>str(encoded)\<close>, which for bytes
  is its \<^verbatim>\<open>repr\<close>: the letter b, a quote, the bytes with the unprintable ones escaped, and
  the quote again. The source says so in its comment \<^verbatim>\<open># image_in_base64 : "b'{base64}'"\<close>.
\<close>

definition repr_quote :: "byte list \<Rightarrow> nat" where
  "repr_quote bs = (if 39 \<in> set bs \<and> 34 \<notin> set bs then 34 else 39)"

definition repr_byte :: "nat \<Rightarrow> byte \<Rightarrow> str" where
  "repr_byte quote b =
     (let c = unat b in
      if c = quote \<or> c = 92 then [92, c]
      else if c = 9 then [92, 116]
      else if c = 10 then [92, 110]
      else if c = 13 then [92, 114]
      else if c < 32 \<or> 127 \<le> c then [92, 120, hexdigit (c div 16), hexdigit (c mod 16)]
      else [c])"

definition bytes_repr :: "byte list \<Rightarrow> str" where
  "bytes_repr bs =
     (let quote = repr_quote bs
      in [98, quote] @ concat (map (repr_byte quote) bs) @ [quote])"

definition format0 :: "byte list \<Rightarrow> str" where
  "format0 encoded = bytes_repr encoded"

section \<open>Python values and \<^verbatim>\<open>json.dumps\<close>\<close>

text \<open>
  The values \<^verbatim>\<open>json\<close> reads and writes: \<^verbatim>\<open>None\<close>, \<^verbatim>\<open>bool\<close>, \<^verbatim>\<open>int\<close>, \<^verbatim>\<open>float\<close>, \<^verbatim>\<open>str\<close>,
  \<^verbatim>\<open>list\<close>, and \<^verbatim>\<open>dict\<close> with \<^verbatim>\<open>str\<close> keys, in insertion order (the order that
  \<^verbatim>\<open>json.dumps\<close> writes since dicts keep it). A float is carried as
  text (the lexeme \<^verbatim>\<open>json.loads\<close> read it from, or the \<^verbatim>\<open>repr\<close> that \<^verbatim>\<open>json.dumps\<close> writes):
  nothing here computes with floats.
\<close>

datatype pyval =
    PyNone
  | PyBool bool
  | PyInt int
  | PyFloat str
  | PyStr str
  | PyList "pyval list"
  | PyDict "(str \<times> pyval) list"

text \<open>
  \<^verbatim>\<open>json.dumps(obj)\<close> with its defaults: \<^verbatim>\<open>ensure_ascii=True\<close>, the separators \<^verbatim>\<open>", "\<close> and
  \<^verbatim>\<open>": "\<close>, no indentation.
\<close>

definition format_04x :: "nat \<Rightarrow> str" where
  "format_04x n =
     [hexdigit (n div 4096 mod 16), hexdigit (n div 256 mod 16),
      hexdigit (n div 16 mod 16), hexdigit (n mod 16)]"

definition u_escape :: "nat \<Rightarrow> str" where
  "u_escape n = [92, 117] @ format_04x n"

definition escape_ascii :: "nat \<Rightarrow> str" where
  "escape_ascii c =
     (if c = 92 then [92, 92]
      else if c = 34 then [92, 34]
      else if c = 8 then [92, 98]
      else if c = 12 then [92, 102]
      else if c = 10 then [92, 110]
      else if c = 13 then [92, 114]
      else if c = 9 then [92, 116]
      else if 32 \<le> c \<and> c \<le> 126 then [c]
      else if c < 0x10000 then u_escape c
      else u_escape (0xd800 + (c - 0x10000) div 1024 mod 1024)
           @ u_escape (0xdc00 + (c - 0x10000) mod 1024))"

definition encode_basestring_ascii :: "str \<Rightarrow> str" where
  "encode_basestring_ascii s = [34] @ concat (map escape_ascii s) @ [34]"

function decimal :: "nat \<Rightarrow> str" where
  "decimal n = (if n < 10 then [48 + n] else decimal (n div 10) @ [48 + n mod 10])"
  by pat_completeness auto
termination
  by (relation "measure id") auto

declare decimal.simps [simp del]

definition int_repr :: "int \<Rightarrow> str" where
  "int_repr i = (if i < 0 then 45 # decimal (nat (- i)) else decimal (nat i))"

fun join :: "str \<Rightarrow> str list \<Rightarrow> str" where
  "join sep [] = []"
| "join sep [x] = x"
| "join sep (x # y # ys) = x @ sep @ join sep (y # ys)"

fun json_dumps :: "pyval \<Rightarrow> str" where
  "json_dumps PyNone = ascii ''null''"
| "json_dumps (PyBool b) = (if b then ascii ''true'' else ascii ''false'')"
| "json_dumps (PyInt i) = int_repr i"
| "json_dumps (PyFloat r) = r"
| "json_dumps (PyStr s) = encode_basestring_ascii s"
| "json_dumps (PyList xs) = [91] @ join (ascii '', '') (map json_dumps xs) @ [93]"
| "json_dumps (PyDict items) =
     [123]
     @ join (ascii '', '')
         (map (\<lambda>(k, v). encode_basestring_ascii k @ ascii '': '' @ json_dumps v) items)
     @ [125]"

section \<open>\<^verbatim>\<open>json.loads\<close>\<close>

text \<open>
  The decoder of the standard library, \<^verbatim>\<open>strict=True\<close> as by default: \<open>scan_once\<close> reads one
  value and returns it with the text after it, \<open>parse_array\<close> and \<open>parse_object\<close> are the
  loops of \<^verbatim>\<open>JSONArray\<close> and \<^verbatim>\<open>JSONObject\<close>, \<open>scanstring\<close> reads a string after its opening
  quote. Every way of failing is the value \<open>None\<close>: \<^verbatim>\<open>JSONDecodeError\<close> for a text that is
  not JSON, \<^verbatim>\<open>RecursionError\<close> for one nested deeper than the interpreter allows,
  \<^verbatim>\<open>ValueError\<close> for an integer longer than \<^verbatim>\<open>int\<close> converts. Memory is not part of the model.
\<close>

definition is_ws :: "nat \<Rightarrow> bool" where
  "is_ws c \<longleftrightarrow> c = 32 \<or> c = 9 \<or> c = 10 \<or> c = 13"

definition skip_ws :: "str \<Rightarrow> str" where
  "skip_ws cs = dropWhile is_ws cs"

definition is_digit :: "nat \<Rightarrow> bool" where
  "is_digit c \<longleftrightarrow> 48 \<le> c \<and> c \<le> 57"

definition hex_value :: "nat \<Rightarrow> nat option" where
  "hex_value c =
     (if 48 \<le> c \<and> c \<le> 57 then Some (c - 48)
      else if 97 \<le> c \<and> c \<le> 102 then Some (c - 87)
      else if 65 \<le> c \<and> c \<le> 70 then Some (c - 55)
      else None)"

fun decode_uXXXX :: "str \<Rightarrow> nat option" where
  "decode_uXXXX (a # b # c # d # rest) =
     (case (hex_value a, hex_value b, hex_value c, hex_value d) of
        (Some x3, Some x2, Some x1, Some x0) \<Rightarrow> Some (((x3 * 16 + x2) * 16 + x1) * 16 + x0)
      | _ \<Rightarrow> None)"
| "decode_uXXXX _ = None"

definition backslash :: "nat \<Rightarrow> nat option" where
  "backslash e =
     (if e = 34 then Some 34
      else if e = 92 then Some 92
      else if e = 47 then Some 47
      else if e = 98 then Some 8
      else if e = 102 then Some 12
      else if e = 110 then Some 10
      else if e = 114 then Some 13
      else if e = 116 then Some 9
      else None)"

function scanstring :: "str \<Rightarrow> str \<Rightarrow> (str \<times> str) option" where
  "scanstring acc [] = None"
| "scanstring acc (c # cs) =
     (if c = 34 then Some (rev acc, cs)
      else if c = 92 then
        (case cs of
           [] \<Rightarrow> None
         | esc # cs' \<Rightarrow>
             if esc = 117 then
               (case decode_uXXXX cs' of
                  None \<Rightarrow> None
                | Some uni \<Rightarrow>
                    if 0xd800 \<le> uni \<and> uni \<le> 0xdbff \<and> take 2 (drop 4 cs') = [92, 117] then
                      (case decode_uXXXX (drop 6 cs') of
                         None \<Rightarrow> None
                       | Some uni2 \<Rightarrow>
                           if 0xdc00 \<le> uni2 \<and> uni2 \<le> 0xdfff
                           then scanstring
                                  ((0x10000 + ((uni - 0xd800) * 1024 + (uni2 - 0xdc00))) # acc)
                                  (drop 10 cs')
                           else scanstring (uni # acc) (drop 4 cs'))
                    else scanstring (uni # acc) (drop 4 cs'))
             else
               (case backslash esc of
                  None \<Rightarrow> None
                | Some x \<Rightarrow> scanstring (x # acc) cs'))
      else if c < 32 then None
      else scanstring (c # acc) cs)"
  by pat_completeness auto
termination
  by (relation "measure (\<lambda>(acc, cs). length cs)") auto

lemma scanstring_shorter:
  "scanstring acc cs = Some (s, r) \<Longrightarrow> length r < length cs"
proof (induction acc cs rule: scanstring.induct)
  case (1 acc)
  then show ?case by simp
next
  case (2 acc c cs)
  show ?case
    using "2.prems" "2.IH"
    by (simp split: if_splits list.splits option.splits) fastforce+
qed

fun int_digits :: "nat \<Rightarrow> str \<Rightarrow> nat" where
  "int_digits n [] = n"
| "int_digits n (d # ds) = int_digits (n * 10 + (d - 48)) ds"

definition match_exponent :: "str \<Rightarrow> str \<times> str" where
  "match_exponent cs =
     (case cs of
        [] \<Rightarrow> ([], cs)
      | e # r \<Rightarrow>
          if e = 101 \<or> e = 69 then
            (let (sgn, r') = (case r of
                                [] \<Rightarrow> ([], r)
                              | s # t \<Rightarrow> if s = 45 \<or> s = 43 then ([s], t) else ([], r))
             in if takeWhile is_digit r' = [] then ([], cs)
                else (e # sgn @ takeWhile is_digit r', dropWhile is_digit r'))
          else ([], cs))"

definition match_fraction :: "str \<Rightarrow> str \<times> str" where
  "match_fraction cs =
     (case cs of
        [] \<Rightarrow> ([], cs)
      | p # r \<Rightarrow>
          if p = 46 \<and> takeWhile is_digit r \<noteq> []
          then (p # takeWhile is_digit r, dropWhile is_digit r)
          else ([], cs))"

definition match_integer :: "str \<Rightarrow> (str \<times> str) option" where
  "match_integer cs =
     (case cs of
        [] \<Rightarrow> None
      | d # r \<Rightarrow>
          if 49 \<le> d \<and> d \<le> 57 then Some (d # takeWhile is_digit r, dropWhile is_digit r)
          else if d = 48 then Some ([d], r)
          else None)"

text \<open>
  What the decoder is run with: whether the constants \<^verbatim>\<open>NaN\<close>, \<^verbatim>\<open>Infinity\<close> and \<^verbatim>\<open>-Infinity\<close>
  are read (\<^verbatim>\<open>parse_constant\<close>, which \<^verbatim>\<open>json.loads\<close> does by default), how many arrays and
  objects may still be opened inside one another before the interpreter raises
  \<^verbatim>\<open>RecursionError\<close> (\<open>None\<close>: no bound), and the longest integer, in digits, that \<^verbatim>\<open>int\<close>
  converts (\<^verbatim>\<open>sys.get_int_max_str_digits()\<close>; 0 for no bound, as in Python).
\<close>

record decoder =
  parse_constant :: bool
  nesting :: "nat option"
  max_digits :: nat

definition enter :: "decoder \<Rightarrow> decoder" where
  "enter dec = dec\<lparr>nesting := map_option (\<lambda>n. n - 1) (nesting dec)\<rparr>"

definition match_number :: "decoder \<Rightarrow> str \<Rightarrow> (pyval \<times> str) option" where
  "match_number dec cs =
     (let (sgn, r0) = (case cs of
                         [] \<Rightarrow> ([], cs)
                       | c # r \<Rightarrow> if c = 45 then ([c], r) else ([], cs))
      in case match_integer r0 of
           None \<Rightarrow> None
         | Some (ip, r1) \<Rightarrow>
             (let (frac, r2) = match_fraction r1;
                  (ex, r3) = match_exponent r2
              in if frac = [] \<and> ex = []
                 then (if max_digits dec = 0 \<or> length ip \<le> max_digits dec
                       then Some (PyInt ((if sgn = [] then 1 else - 1) * int (int_digits 0 ip)),
                                  r3)
                       else None)
                 else Some (PyFloat (sgn @ ip @ frac @ ex), r3)))"

fun dict_setitem :: "(str \<times> pyval) list \<Rightarrow> str \<Rightarrow> pyval \<Rightarrow> (str \<times> pyval) list" where
  "dict_setitem [] k v = [(k, v)]"
| "dict_setitem ((k', v') # d) k v =
     (if k' = k then (k, v) # d else (k', v') # dict_setitem d k v)"

definition dict_of_pairs :: "(str \<times> pyval) list \<Rightarrow> (str \<times> pyval) list" where
  "dict_of_pairs pairs = foldl (\<lambda>d (k, v). dict_setitem d k v) [] pairs"

lemma skip_ws_length: "length (skip_ws cs) \<le> length cs"
  by (simp add: skip_ws_def length_dropWhile_le)

lemma skip_ws_Cons: "skip_ws cs = d # r \<Longrightarrow> length r < length cs"
  using skip_ws_length [of cs] by simp

lemma match_integer_shorter: "match_integer cs = Some (ip, r) \<Longrightarrow> length r < length cs"
  using length_dropWhile_le [of is_digit "tl cs"]
  by (auto simp add: match_integer_def split: list.splits if_splits)

lemma match_fraction_length: "match_fraction cs = (f, r) \<Longrightarrow> length r \<le> length cs"
  using length_dropWhile_le [of is_digit "tl cs"]
  by (auto simp add: match_fraction_def split: list.splits if_splits)

lemma match_exponent_length: "match_exponent cs = (e, r) \<Longrightarrow> length r \<le> length cs"
  using length_dropWhile_le [of is_digit "tl cs"] length_dropWhile_le [of is_digit "tl (tl cs)"]
  by (auto simp add: match_exponent_def Let_def split: list.splits if_splits prod.splits)

lemma match_number_shorter: "match_number dec cs = Some (v, r) \<Longrightarrow> length r < length cs"
  apply (auto simp add: match_number_def Let_def split: list.splits if_splits prod.splits option.splits
      dest!: match_integer_shorter match_fraction_length match_exponent_length)
  done

function scan_once :: "decoder \<Rightarrow> str \<Rightarrow> (pyval \<times> str) option"
  and parse_array :: "decoder \<Rightarrow> pyval list \<Rightarrow> str \<Rightarrow> (pyval \<times> str) option"
  and parse_object :: "decoder \<Rightarrow> (str \<times> pyval) list \<Rightarrow> str \<Rightarrow> (pyval \<times> str) option"
where
  "scan_once dec [] = None"
| "scan_once dec (c # cs) =
     (if c = 34 then
        (case scanstring [] cs of None \<Rightarrow> None | Some (s, r) \<Rightarrow> Some (PyStr s, r))
      else if c = 123 then
        (if nesting dec = Some 0 then None
         else
           (case skip_ws cs of
              [] \<Rightarrow> None
            | d # r \<Rightarrow>
                if d = 125 then Some (PyDict [], r) else parse_object (enter dec) [] (d # r)))
      else if c = 91 then
        (if nesting dec = Some 0 then None
         else
           (case skip_ws cs of
              [] \<Rightarrow> None
            | d # r \<Rightarrow>
                if d = 93 then Some (PyList [], r) else parse_array (enter dec) [] (d # r)))
      else if c = 110 \<and> take 3 cs = [117, 108, 108] then Some (PyNone, drop 3 cs)
      else if c = 116 \<and> take 3 cs = [114, 117, 101] then Some (PyBool True, drop 3 cs)
      else if c = 102 \<and> take 4 cs = [97, 108, 115, 101] then Some (PyBool False, drop 4 cs)
      else if c = 78 \<and> take 2 cs = [97, 78] then
        (if parse_constant dec then Some (PyFloat (c # take 2 cs), drop 2 cs) else None)
      else if c = 73 \<and> take 7 cs = [110, 102, 105, 110, 105, 116, 121] then
        (if parse_constant dec then Some (PyFloat (c # take 7 cs), drop 7 cs) else None)
      else if c = 45 \<and> take 8 cs = [73, 110, 102, 105, 110, 105, 116, 121] then
        (if parse_constant dec then Some (PyFloat (c # take 8 cs), drop 8 cs) else None)
      else match_number dec (c # cs))"
| "parse_array dec values cs =
     (case scan_once dec cs of
        None \<Rightarrow> None
      | Some (v, r) \<Rightarrow>
          (case skip_ws r of
             [] \<Rightarrow> None
           | d # r' \<Rightarrow>
               if d = 93 then Some (PyList (rev (v # values)), r')
               else if d = 44 then parse_array dec (v # values) (skip_ws r')
               else None))"
| "parse_object dec pairs cs =
     (case cs of
        [] \<Rightarrow> None
      | q # cs1 \<Rightarrow>
          if q \<noteq> 34 then None
          else
            (case scanstring [] cs1 of
               None \<Rightarrow> None
             | Some (key, r1) \<Rightarrow>
                 (case skip_ws r1 of
                    [] \<Rightarrow> None
                  | colon # r2 \<Rightarrow>
                      if colon \<noteq> 58 then None
                      else
                        (case scan_once dec (skip_ws r2) of
                           None \<Rightarrow> None
                         | Some (v, r3) \<Rightarrow>
                             (case skip_ws r3 of
                                [] \<Rightarrow> None
                              | d # r4 \<Rightarrow>
                                  if d = 125
                                  then Some (PyDict (dict_of_pairs (rev ((key, v) # pairs))), r4)
                                  else if d = 44
                                  then parse_object dec ((key, v) # pairs) (skip_ws r4)
                                  else None)))))"
  by pat_completeness auto

lemma shorter_dom:
  "scan_once_parse_array_parse_object_dom (Inl (dec, cs)) \<Longrightarrow>
     scan_once dec cs = Some (v, r) \<Longrightarrow> length r < length cs"
  "scan_once_parse_array_parse_object_dom (Inr (Inl (dec1, vals, cs1))) \<Longrightarrow>
     parse_array dec1 vals cs1 = Some (v1, r1) \<Longrightarrow> length r1 < length cs1"
  "scan_once_parse_array_parse_object_dom (Inr (Inr (dec2, pairs, cs2))) \<Longrightarrow>
     parse_object dec2 pairs cs2 = Some (v2, r2) \<Longrightarrow> length r2 < length cs2"
proof (induction dec cs and dec1 vals cs1 and dec2 pairs cs2 arbitrary: v r and v1 r1 and v2 r2
    rule: scan_once_parse_array_parse_object.pinduct)
  case (1 dec)
  then show ?case by (simp add: scan_once.psimps)
next
  case (2 dec c cs)
  show ?case
    using "2.prems" "2.hyps" "2.IH"
    apply (simp add: scan_once.psimps split: if_splits option.splits list.splits)
    apply (auto dest!: scanstring_shorter match_number_shorter skip_ws_Cons)
    subgoal premises p for d r'
      using p(2) [OF refl p(6)] p(7) by simp
    subgoal premises p for d r'
      using p(2) [OF refl p(6)] p(7) by simp
    done
next
  case (3 dec vals cs)
  show ?case
    using "3.prems" "3.hyps" "3.IH"
    apply (simp add: parse_array.psimps split: if_splits option.splits list.splits)
    apply (auto dest!: scanstring_shorter match_number_shorter skip_ws_Cons)
    subgoal premises p for a b
    proof (cases "skip_ws b")
      case Nil
      then show ?thesis using p(5) by simp
    next
      case (Cons d r')
      note len = skip_ws_Cons [OF Cons]
      show ?thesis
      proof (cases "d = 93")
        case True
        then show ?thesis using p(5) Cons len p(2) by simp
      next
        case False
        then have d: "skip_ws b = 44 # r'"
          and pa: "parse_array dec (a # vals) (skip_ws r') = Some (v1, r1)"
          using p(5) Cons by (auto split: if_splits)
        have "length r1 < length (skip_ws r')"
          using p(3) [OF refl refl d refl pa] .
        then show ?thesis using skip_ws_length [of r'] len p(2) by simp
      qed
    qed
    done
next
  case (4 dec pairs cs)
  show ?case
    using "4.prems" "4.hyps" "4.IH"
    apply (simp add: parse_object.psimps split: if_splits option.splits list.splits)
    apply (auto dest!: scanstring_shorter match_number_shorter skip_ws_Cons)
    subgoal premises p for cs1 key b
    proof (cases "skip_ws b")
      case Nil
      then show ?thesis using p(5) by simp
    next
      case (Cons colon rest)
      then have colon: "skip_ws b = 58 # rest"
        using p(5) by (auto split: if_splits)
      note len_rest = skip_ws_Cons [OF colon]
      show ?thesis
      proof (cases "scan_once dec (skip_ws rest)")
        case None
        then show ?thesis using p(5) colon by simp
      next
        case (Some vr)
        obtain v r3 where vr: "vr = (v, r3)" by (cases vr)
        have so: "scan_once dec (skip_ws rest) = Some (v, r3)" using Some vr by simp
        have "length r3 < length (skip_ws rest)"
          using p(2) [OF refl refl refl colon refl so] .
        then have len3: "length r3 < length b"
          using skip_ws_length [of rest] len_rest by simp
        show ?thesis
        proof (cases "skip_ws r3")
          case Nil
          then show ?thesis using p(5) colon so by simp
        next
          case (Cons d r4)
          note len4 = skip_ws_Cons [OF Cons]
          show ?thesis
          proof (cases "d = 125")
            case True
            then show ?thesis using p(5) colon so Cons len4 len3 p(6) by simp
          next
            case False
            then have d: "skip_ws r3 = 44 # r4"
              and po: "parse_object dec ((key, v) # pairs) (skip_ws r4) = Some (v2, r2)"
              using p(5) colon so Cons by (auto split: if_splits)
            have "length r2 < length (skip_ws r4)"
              using p(3) [OF refl refl refl colon refl so refl d refl po] .
            then show ?thesis
              using skip_ws_length [of r4] len4 len3 p(6) by simp
          qed
        qed
      qed
    qed
    done
qed

termination scan_once
  apply (relation "measure (\<lambda>x. case x of
            Inl (dec, cs) \<Rightarrow> 2 * length cs
          | Inr (Inl (dec, vals, cs)) \<Rightarrow> 2 * length cs + 1
          | Inr (Inr (dec, pairs, cs)) \<Rightarrow> 2 * length cs + 1)")
  apply simp_all
  subgoal for dec c cs d r
    using skip_ws_Cons [of cs d r] by simp
  subgoal for dec c cs d r
    using skip_ws_Cons [of cs d r] by simp
  subgoal premises p for dec cs x2 v r d r'
  proof -
    have "scan_once dec cs = Some (v, r)" using p(1,2) by simp
    then have "length r < length cs" by (rule shorter_dom(1) [OF p(5)])
    then show ?thesis
      using skip_ws_Cons [OF p(3)] skip_ws_length [of r'] by simp
  qed
  subgoal for cs q cs1 x2 key r1 colon r2
    using scanstring_shorter [of "[]" cs1 key r1] skip_ws_Cons [of r1 58 r2]
      skip_ws_length [of r2]
    by simp
  subgoal premises p for dec cs q cs1 x2 key r1 colon r2 x2a v r3 d r4
  proof -
    have "scanstring [] cs1 = Some (key, r1)" using p(3,4) by simp
    then have l1: "length r1 < length cs1" by (rule scanstring_shorter)
    have "scan_once dec (skip_ws r2) = Some (v, r3)" using p(7,8) by simp
    then have "length r3 < length (skip_ws r2)" by (rule shorter_dom(1) [OF p(11)])
    then show ?thesis
      using l1 skip_ws_Cons [OF p(5)] skip_ws_length [of r2]
        skip_ws_Cons [OF p(9)] skip_ws_length [of r4] by simp
  qed
  done

declare parse_array.simps [simp del] parse_object.simps [simp del]

definition json_decode :: "decoder \<Rightarrow> str \<Rightarrow> pyval option" where
  "json_decode dec s =
     (case scan_once dec (skip_ws s) of
        None \<Rightarrow> None
      | Some (obj, r) \<Rightarrow> if skip_ws r = [] then Some obj else None)"

text \<open>
  The limits of the interpreter that runs the function: how many arrays and objects
  \<^verbatim>\<open>json.loads\<close> may open inside one another from where it is called, and
  \<^verbatim>\<open>sys.get_int_max_str_digits()\<close> (0 where there is no such limit, as before Python 3.11;
  Python lets it be set to 0 or to 640 and more, the smaller bounds that the record also
  holds belong to no interpreter). Both calls of \<^verbatim>\<open>json.loads\<close> in the function are made
  from the same frame, so the same limits hold for both. \<^verbatim>\<open>json.loads(s)\<close> is the decoder
  with its defaults, under these limits.
\<close>

record limits =
  recursion_limit :: "nat option"
  int_max_str_digits :: nat

definition json_loads :: "limits \<Rightarrow> str \<Rightarrow> pyval option" where
  "json_loads lim s =
     json_decode \<lparr>parse_constant = True, nesting = recursion_limit lim,
                  max_digits = int_max_str_digits lim\<rparr> s"

text \<open>
  Two readers that are not the interpreter's: \<open>json_read\<close> is the same decoder without
  limits, the reader a request body is measured against; \<open>valid_json\<close> says that a text is
  JSON, read by the decoder \<open>strict\<close> that has no limits either and leaves out the three
  constants that only \<^verbatim>\<open>json.loads\<close> reads.
\<close>

definition reader :: decoder where
  "reader = \<lparr>parse_constant = True, nesting = None, max_digits = 0\<rparr>"

definition json_read :: "str \<Rightarrow> pyval option" where
  "json_read s = json_decode reader s"

definition strict :: decoder where
  "strict = \<lparr>parse_constant = False, nesting = None, max_digits = 0\<rparr>"

definition valid_json :: "str \<Rightarrow> bool" where
  "valid_json s \<longleftrightarrow> json_decode strict s \<noteq> None"

section \<open>The surroundings of \<^verbatim>\<open>score_image_with_http\<close>\<close>

text \<open>
  Exceptions are values. \<open>OSError\<close> stands for whatever \<^verbatim>\<open>open\<close> or \<^verbatim>\<open>read\<close> raises, with its
  message; \<open>RequestException\<close> for whatever \<^verbatim>\<open>requests.post\<close> raises; the other five are the
  kinds that can arise while the response is decoded.
\<close>

datatype exn =
    OSError str
  | RequestException str
  | JSONDecodeError
  | TypeError
  | KeyError
  | IndexError
  | ValueError str

text \<open>What a path leads to: \<^verbatim>\<open>open\<close> fails, or \<^verbatim>\<open>read\<close> fails, or the bytes are read.\<close>

datatype file_state = OpenFails str | ReadFails str | Content "byte list"

record request =
  http_method :: str
  url :: str
  data :: str
  headers :: "(str \<times> str) list"

record response =
  status_code :: nat
  r_text :: str

text \<open>
  The world a call runs in: the file system it reads, the server it posts to (which
  answers, or makes \<^verbatim>\<open>requests.post\<close> raise) and the limits of the interpreter. What the call does to the world is the list of
  events it returns.
\<close>

record world =
  files :: "str \<Rightarrow> file_state"
  endpoint :: "request \<Rightarrow> exn + response"
  interpreter :: limits

datatype event = Opened str | Closed str | Sent request

text \<open>
  \<^verbatim>\<open>with open(image,'rb') as f: image_buffer = BytesIO(f.read())\<close>: when \<^verbatim>\<open>open\<close> raises there
  is no handle; once it has returned one, the \<^verbatim>\<open>with\<close> statement closes it however the
  body ends.
\<close>

definition open_rb :: "world \<Rightarrow> str \<Rightarrow> exn + file_state" where
  "open_rb w image_path =
     (case files w image_path of
        OpenFails msg \<Rightarrow> Inl (OSError msg)
      | ReadFails msg \<Rightarrow> Inr (ReadFails msg)
      | Content bs \<Rightarrow> Inr (Content bs))"

definition read :: "file_state \<Rightarrow> exn + byte list" where
  "read f =
     (case f of
        OpenFails msg \<Rightarrow> Inl (OSError msg)
      | ReadFails msg \<Rightarrow> Inl (OSError msg)
      | Content bs \<Rightarrow> Inr bs)"

definition with_open_read :: "world \<Rightarrow> str \<Rightarrow> (exn + byte list) \<times> event list" where
  "with_open_read w image_path =
     (case open_rb w image_path of
        Inl e \<Rightarrow> (Inl e, [])
      | Inr f \<Rightarrow> (read f, [Opened image_path, Closed image_path]))"

text \<open>
  \<^verbatim>\<open>json.loads(x)\<close> for an arbitrary object \<^verbatim>\<open>x\<close>: a \<^verbatim>\<open>TypeError\<close> unless it is a \<^verbatim>\<open>str\<close>, and
  \<^verbatim>\<open>x[0]\<close>: the first element of a list, the first character of a \<^verbatim>\<open>str\<close> (as a \<^verbatim>\<open>str\<close> of
  length one), \<^verbatim>\<open>IndexError\<close> when they are empty, \<^verbatim>\<open>KeyError\<close> for a dict (its keys are
  strings, never the number 0), \<^verbatim>\<open>TypeError\<close> for everything else. Whatever
  \<^verbatim>\<open>json.loads\<close> raises on a text it does not read is written \<open>JSONDecodeError\<close>.
\<close>

definition loads_obj :: "limits \<Rightarrow> pyval \<Rightarrow> exn + pyval" where
  "loads_obj lim x =
     (case x of
        PyStr s \<Rightarrow> (case json_loads lim s of None \<Rightarrow> Inl JSONDecodeError | Some v \<Rightarrow> Inr v)
      | _ \<Rightarrow> Inl TypeError)"

definition getitem0 :: "pyval \<Rightarrow> exn + pyval" where
  "getitem0 x =
     (case x of
        PyStr s \<Rightarrow> (case s of [] \<Rightarrow> Inl IndexError | c # _ \<Rightarrow> Inr (PyStr [c]))
      | PyList xs \<Rightarrow> (case xs of [] \<Rightarrow> Inl IndexError | y # _ \<Rightarrow> Inr y)
      | PyDict d \<Rightarrow> Inl KeyError
      | _ \<Rightarrow> Inl TypeError)"

section \<open>\<^verbatim>\<open>score_image_with_http\<close>\<close>

text \<open>
  The body of the \<^verbatim>\<open>try\<close>: \<^verbatim>\<open>result = json.loads(r.text)\<close>, then \<^verbatim>\<open>json.loads(result[0])\<close>, whose
  value is dropped. It ends with \<^verbatim>\<open>result\<close> bound, or with the exception raised.
\<close>

definition try_block :: "limits \<Rightarrow> str \<Rightarrow> exn + pyval" where
  "try_block lim text =
     (case loads_obj lim (PyStr text) of
        Inl e \<Rightarrow> Inl e
      | Inr result \<Rightarrow>
          (case getitem0 result of
             Inl e \<Rightarrow> Inl e
           | Inr first \<Rightarrow>
               (case loads_obj lim first of
                  Inl e \<Rightarrow> Inl e
                | Inr inner \<Rightarrow> Inr result)))"

text \<open>
  The bare \<^verbatim>\<open>except:\<close> turns every exception of the body into the \<^verbatim>\<open>ValueError\<close> with the
  response text; after the \<^verbatim>\<open>try\<close> statement the function returns \<^verbatim>\<open>result[0]\<close>, indexed
  anew.
\<close>

definition parse_response :: "limits \<Rightarrow> response \<Rightarrow> exn + pyval" where
  "parse_response lim r =
     (case try_block lim (r_text r) of
        Inl e \<Rightarrow>
          Inl (ValueError
                 (ascii ''Incorrect output format. Result cant not be parsed: '' @ r_text r))
      | Inr result \<Rightarrow> getitem0 result)"

text \<open>
  The parameter \<^verbatim>\<open>image\<close> is written \<open>image_path\<close>. A call returns its result (the value returned or the exception raised), the events it
  caused, and the state in which it leaves the object that \<^verbatim>\<open>parameters\<close> is bound to (the
  caller's dict, shared with the callee).
\<close>

record outcome =
  result :: "exn + pyval"
  trace :: "event list"
  parameters_after :: pyval

definition score_image_with_http ::
  "world \<Rightarrow> str \<Rightarrow> str \<Rightarrow> str option \<Rightarrow> pyval \<Rightarrow> outcome" where
  "score_image_with_http w image_path service_endpoint_url service_key parameters =
     (let headers =
            (case service_key of
               None \<Rightarrow> [(ascii ''Content-Type'', ascii ''application/json'')]
             | Some key \<Rightarrow>
                 [(ascii ''Content-Type'', ascii ''application/json''),
                  (ascii ''Authorization'', ascii ''Bearer '' @ key)]);
          payload = []
      in case with_open_read w image_path of
           (Inl e, events) \<Rightarrow>
             \<lparr>result = Inl e, trace = events, parameters_after = parameters\<rparr>
         | (Inr image_buffer, events) \<Rightarrow>
             (let encoded = b64encode image_buffer;
                  image_request =
                    PyDict [(ascii ''image_in_base64'', PyStr (format0 encoded)),
                            (ascii ''parameters'', parameters)];
                  payload = payload @ [image_request];
                  body = json_dumps (PyList payload);
                  req = \<lparr>http_method = ascii ''POST'', url = service_endpoint_url,
                         data = body, headers = headers\<rparr>
              in case endpoint w req of
                   Inl e \<Rightarrow>
                     \<lparr>result = Inl e, trace = events @ [Sent req],
                      parameters_after = parameters\<rparr>
                 | Inr r \<Rightarrow>
                     \<lparr>result = parse_response (interpreter w) r, trace = events @ [Sent req],
                      parameters_after = parameters\<rparr>))"

text \<open>
  The default \<^verbatim>\<open>parameters={}\<close> is one dict, made when the \<^verbatim>\<open>def\<close> statement runs and kept
  in the function object; a call that omits the argument binds \<^verbatim>\<open>parameters\<close> to that very
  object, so what the call leaves in it is what the next such call finds.
\<close>

record funcobj =
  defaults_parameters :: pyval

definition def_score_image_with_http :: funcobj where
  "def_score_image_with_http = \<lparr>defaults_parameters = PyDict []\<rparr>"

definition call_score_image_with_http ::
  "funcobj \<Rightarrow> world \<Rightarrow> str \<Rightarrow> str \<Rightarrow> str option \<Rightarrow> pyval option \<Rightarrow> outcome \<times> funcobj" where
  "call_score_image_with_http f w image_path service_endpoint_url service_key parameters_arg =
     (case parameters_arg of
        None \<Rightarrow>
          (let out = score_image_with_http w image_path service_endpoint_url service_key
                       (defaults_parameters f)
           in (out, f\<lparr>defaults_parameters := parameters_after out\<rparr>))
      | Some parameters \<Rightarrow>
          (score_image_with_http w image_path service_endpoint_url service_key parameters, f))"

fun call_with_defaults ::
  "funcobj \<Rightarrow> (world \<times> str \<times> str \<times> str option) list \<Rightarrow> outcome list \<times> funcobj" where
  "call_with_defaults f [] = ([], f)"
| "call_with_defaults f ((w, image_path, service_endpoint_url, service_key) # calls) =
     (let (out, f') =
            call_score_image_with_http f w image_path service_endpoint_url service_key None;
          (outs, f'') = call_with_defaults f' calls
      in (out # outs, f''))"

section \<open>Observations on a run\<close>

fun sent :: "event list \<Rightarrow> request list" where
  "sent [] = []"
| "sent (Sent req # es) = req # sent es"
| "sent (e # es) = sent es"

fun open_handles :: "str list \<Rightarrow> event list \<Rightarrow> str list" where
  "open_handles hs [] = hs"
| "open_handles hs (Opened p # es) = open_handles (p # hs) es"
| "open_handles hs (Closed p # es) = open_handles (remove1 p hs) es"
| "open_handles hs (Sent req # es) = open_handles hs es"

text \<open>
  The value of the \<^verbatim>\<open>image_in_base64\<close> field of a request body: the body read as JSON,
  its only element, that key.
\<close>

definition image_in_base64_of :: "str \<Rightarrow> pyval option" where
  "image_in_base64_of body =
     (case json_read body of
        Some (PyList [PyDict d]) \<Rightarrow> map_of d (ascii ''image_in_base64'')
      | _ \<Rightarrow> None)"

text \<open>The characters \<^verbatim>\<open>b64encode\<close> writes: the 64 of the table and the padding \<^verbatim>\<open>=\<close>.\<close>

definition b64char :: "nat \<Rightarrow> bool" where
  "b64char c \<longleftrightarrow>
     (65 \<le> c \<and> c \<le> 90) \<or> (97 \<le> c \<and> c \<le> 122) \<or> (48 \<le> c \<and> c \<le> 57)
     \<or> c = 43 \<or> c = 47 \<or> c = 61"

section \<open>Sample inputs\<close>

text \<open>
  A file \<^verbatim>\<open>cat.jpg\<close> (no other path exists) and a server that answers every request with
  the same status and body, in an interpreter with the limits Python sets by default.
\<close>

definition usual_limits :: limits where
  "usual_limits = \<lparr>recursion_limit = Some 1000, int_max_str_digits = 4300\<rparr>"

definition cat_jpg :: "byte list" where
  "cat_jpg = [0, 1, 2, 3, 4, 5, 6, 7, 8, 9]"

definition man_jpg :: "byte list" where
  "man_jpg = [77, 97, 110]"

definition cat_reply :: str where
  "cat_reply =
     ascii ''[\"{'' @ [92] @ ascii ''\"label'' @ [92] @ ascii ''\":'' @ [92] @ ascii ''\"cat''
     @ [92] @ ascii ''\",'' @ [92] @ ascii ''\"score'' @ [92] @ ascii ''\":0.91}\"]''"

definition serving :: "byte list \<Rightarrow> nat \<Rightarrow> str \<Rightarrow> world" where
  "serving content status reply =
     \<lparr>files = (\<lambda>p. if p = ascii ''cat.jpg'' then Content content
                    else OpenFails (ascii ''No such file or directory'')),
      endpoint = (\<lambda>req. Inr \<lparr>status_code = status, r_text = reply\<rparr>),
      interpreter = usual_limits\<rparr>"

definition localhost :: str where
  "localhost = ascii ''http://localhost:9999/score''"

section \<open>Vocabulary of the claims\<close>

text \<open>The error raised for a response that cannot be decoded, with the response text in it.\<close>

definition malformed :: "str \<Rightarrow> exn" where
  "malformed t = ValueError (ascii ''Incorrect output format. Result cant not be parsed: '' @ t)"

text \<open>
  The response texts that are decoded without error, said without the code's words: a
  text that \<^verbatim>\<open>json.loads\<close> reads as an array whose first element is a string that
  \<^verbatim>\<open>json.loads\<close> reads too, or as a string whose first character is a digit.
\<close>

definition accepted :: "limits \<Rightarrow> str \<Rightarrow> bool" where
  "accepted lim t \<longleftrightarrow>
     (case json_loads lim t of
        Some (PyList (PyStr s # xs)) \<Rightarrow> json_loads lim s \<noteq> None
      | Some (PyStr (c # cs)) \<Rightarrow> is_digit c
      | _ \<Rightarrow> False)"

text \<open>The same world, with every answer of the server given the status \<open>s\<close>.\<close>

definition with_status :: "nat \<Rightarrow> world \<Rightarrow> world" where
  "with_status s w =
     w\<lparr>endpoint := (\<lambda>req. case endpoint w req of
                               Inl e \<Rightarrow> Inl e
                             | Inr r \<Rightarrow> Inr (r\<lparr>status_code := s\<rparr>))\<rparr>"

text \<open>The headers and the request that a call builds for a file holding the bytes \<open>B\<close>.\<close>

definition the_headers :: "str option \<Rightarrow> (str \<times> str) list" where
  "the_headers service_key =
     (case service_key of
        None \<Rightarrow> [(ascii ''Content-Type'', ascii ''application/json'')]
      | Some key \<Rightarrow>
          [(ascii ''Content-Type'', ascii ''application/json''),
           (ascii ''Authorization'', ascii ''Bearer '' @ key)])"

definition the_request :: "byte list \<Rightarrow> str \<Rightarrow> str option \<Rightarrow> pyval \<Rightarrow> request" where
  "the_request B u service_key parameters =
     \<lparr>http_method = ascii ''POST'', url = u,
      data = json_dumps (PyList [PyDict
               [(ascii ''image_in_base64'', PyStr (format0 (b64encode B))),
                (ascii ''parameters'', parameters)]]),
      headers = the_headers service_key\<rparr>"

text \<open>Two calls, one after the other, that leave \<^verbatim>\<open>parameters\<close> to its default.\<close>

definition two_calls :: "(world \<times> str \<times> str \<times> str option) list" where
  "two_calls =
     [(serving cat_jpg 200 cat_reply, ascii ''cat.jpg'', localhost, None),
      (serving man_jpg 200 cat_reply, ascii ''cat.jpg'', localhost, Some (ascii ''abc123''))]"

text \<open>
  The values whose serialisation is read back as they are: strings (and keys) made of
  Unicode scalar values, floats that carry the text of a float, dicts with no key twice.
\<close>

definition scalar :: "nat \<Rightarrow> bool" where
  "scalar c \<longleftrightarrow> c < 0x110000 \<and> \<not> (0xd800 \<le> c \<and> c \<le> 0xdfff)"

definition delimited :: "str \<Rightarrow> bool" where
  "delimited rest \<longleftrightarrow> (case rest of [] \<Rightarrow> True | c # cs \<Rightarrow> c = 44 \<or> c = 93 \<or> c = 125)"

definition float_text :: "str \<Rightarrow> bool" where
  "float_text t \<longleftrightarrow>
     t = ascii ''NaN'' \<or> t = ascii ''Infinity'' \<or> t = ascii ''-Infinity''
     \<or> match_number reader t = Some (PyFloat t, [])"

fun json_value :: "pyval \<Rightarrow> bool" where
  "json_value PyNone = True"
| "json_value (PyBool b) = True"
| "json_value (PyInt i) = True"
| "json_value (PyFloat t) = float_text t"
| "json_value (PyStr s) = list_all scalar s"
| "json_value (PyList xs) = list_all json_value xs"
| "json_value (PyDict items) =
     (distinct (map fst items)
      \<and> list_all (\<lambda>kv. list_all scalar (fst kv) \<and> json_value (snd kv)) items)"

text \<open>The values that hold none of the floats \<^verbatim>\<open>nan\<close>, \<^verbatim>\<open>inf\<close> and \<^verbatim>\<open>-inf\<close>, which JSON cannot write.\<close>

fun finite_floats :: "pyval \<Rightarrow> bool" where
  "finite_floats (PyFloat t)
     = (t \<noteq> ascii ''NaN'' \<and> t \<noteq> ascii ''Infinity'' \<and> t \<noteq> ascii ''-Infinity'')"
| "finite_floats (PyList xs) = list_all finite_floats xs"
| "finite_floats (PyDict items) = list_all (\<lambda>kv. finite_floats (snd kv)) items"
| "finite_floats v = True"

text \<open>Auxiliary notions of the proof that a serialised value is read back.\<close>

definition unlimited :: "decoder \<Rightarrow> bool" where
  "unlimited dec \<longleftrightarrow> nesting dec = None \<and> max_digits dec = 0"

definition starts :: "str \<Rightarrow> bool" where
  "starts s \<longleftrightarrow> (case s of [] \<Rightarrow> False | c # cs \<Rightarrow> \<not> is_ws c \<and> c \<noteq> 93 \<and> c \<noteq> 125)"

definition reads_back :: "decoder \<Rightarrow> pyval \<Rightarrow> bool" where
  "reads_back dec v \<longleftrightarrow>
     (\<forall>rest. delimited rest \<longrightarrow> scan_once dec (json_dumps v @ rest) = Some (v, rest))"

definition dumps_item :: "str \<times> pyval \<Rightarrow> str" where
  "dumps_item kv = encode_basestring_ascii (fst kv) @ ascii '': '' @ json_dumps (snd kv)"

section \<open>Base64: decoding what was encoded\<close>

lemma table_roundtrip:
  assumes "n < 64"
  shows "table_b2a_base64 n < 128 \<and> table_b2a_base64 n \<noteq> 61
     \<and> table_a2b_base64 (table_b2a_base64 n) = Some (of_nat n)"
proof -
  consider "n < 26" | "26 \<le> n \<and> n < 52" | "52 \<le> n \<and> n < 62" | "n = 62" | "n = 63"
    using assms by linarith
  then show ?thesis
    by cases (auto simp add: table_b2a_base64_def table_a2b_base64_def)
qed

lemma and_low_bits:
  "(a::byte) AND 3 = take_bit 2 a" "(a::byte) AND 15 = take_bit 4 a"
  "(a::byte) AND 63 = take_bit 6 a"
  by (simp_all add: take_bit_eq_mask mask_eq_exp_minus_1)

lemma Suc_Suc_diff_2: "2 \<le> n \<Longrightarrow> Suc (Suc (n - 2)) = n"
  by simp

lemma octet1_sextets: "octet1 (sextet1 a) (sextet2 a b) = a"
  unfolding octet1_def sextet1_def sextet2_def and_low_bits
  apply (rule bit_word_eqI)
  apply (auto simp add: bit_simps Suc_Suc_diff_2)
  subgoal for n by (cases "2 \<le> n") (simp_all add: Suc_Suc_diff_2)
  done

lemma octet2_sextets: "octet2 (sextet2 a b) (sextet3 b c) = b"
  unfolding octet2_def sextet2_def sextet3_def and_low_bits
  apply (rule bit_word_eqI)
  apply (auto simp add: bit_simps)
  subgoal for n by (cases "4 \<le> n") simp_all
  done

lemma octet3_sextets: "octet3 (sextet3 b c) (sextet4 c) = c"
  unfolding octet3_def sextet3_def sextet4_def and_low_bits
  apply (rule bit_word_eqI)
  apply (auto simp add: bit_simps)
  done

lemma take_bit_sextets:
  "take_bit 6 (sextet1 a) = sextet1 a"
  "take_bit 6 (sextet2 a b) = sextet2 a b"
  "take_bit 6 (sextet3 b c) = sextet3 b c"
  "take_bit 6 (sextet4 c) = sextet4 c"
  unfolding sextet1_def sextet2_def sextet3_def sextet4_def and_low_bits
  by (rule bit_word_eqI; auto simp add: bit_simps dest: bit_imp_le_length)+

lemma sextet_bound:
  assumes "take_bit 6 x = (x::byte)"
  shows "unat x < 64"
proof -
  have "unat (take_bit 6 x) < 2 ^ 6"
    using take_bit_nat_less_exp [of 6 "unat x"] by (simp add: unsigned_take_bit_eq)
  then show ?thesis using assms by simp
qed

lemma b2a_sextet:
  assumes "take_bit 6 x = x"
  shows "unat (b2a x) = table_b2a_base64 (unat x)"
    and "unat (b2a x) \<noteq> 61"
    and "table_a2b_base64 (unat (b2a x)) = Some x"
proof -
  note t = table_roundtrip [OF sextet_bound [OF assms]]
  show u: "unat (b2a x) = table_b2a_base64 (unat x)"
    using t by (simp add: b2a_def unat_of_nat)
  show "unat (b2a x) \<noteq> 61" using t u by simp
  show "table_a2b_base64 (unat (b2a x)) = Some x" using t u by simp
qed

lemmas b2a_sextets =
  b2a_sextet(2,3) [OF take_bit_sextets(1)] b2a_sextet(2,3) [OF take_bit_sextets(2)]
  b2a_sextet(2,3) [OF take_bit_sextets(3)] b2a_sextet(2,3) [OF take_bit_sextets(4)]

lemma b64decode_b64encode: "b64decode (map unat (b64encode B)) = Some B"
proof (induction B rule: b64encode.induct)
  case 1
  show ?case by simp
next
  case (2 a)
  show ?case by (simp add: b2a_sextets octet1_sextets)
next
  case (3 a b)
  show ?case by (simp add: b2a_sextets octet1_sextets octet2_sextets)
next
  case (4 a b c rest)
  then show ?case by (simp add: b2a_sextets octet1_sextets octet2_sextets octet3_sextets)
qed

section \<open>The image field and the request body\<close>

lemma b64char_table: "n < 64 \<Longrightarrow> b64char (table_b2a_base64 n)"
  by (auto simp add: b64char_def table_b2a_base64_def)

lemma b64char_b2a:
  assumes "take_bit 6 x = x"
  shows "b64char (unat (b2a x))"
  using b64char_table [OF sextet_bound [OF assms]] b2a_sextet(1) [OF assms] by simp

lemma b64char_61: "b64char 61"
  by (simp add: b64char_def)

lemma b64encode_alphabet: "list_all (\<lambda>b. b64char (unat b)) (b64encode B)"
  by (induction B rule: b64encode.induct)
     (simp_all add: b64char_b2a take_bit_sextets b64char_61)

lemma repr_byte_b64char: "b64char (unat (b :: byte)) \<Longrightarrow> repr_byte 39 b = [unat b]"
  by (auto simp add: repr_byte_def b64char_def Let_def)

lemma concat_repr_byte:
  "list_all (\<lambda>b. b64char (unat b)) (bs :: byte list)
     \<Longrightarrow> concat (map (repr_byte 39) bs) = map unat bs"
  by (induction bs) (simp_all add: repr_byte_b64char)

lemma b64char_not_quote:
  assumes "list_all (\<lambda>b. b64char (unat b)) (bs :: byte list)"
  shows "39 \<notin> set bs"
proof
  assume "39 \<in> set bs"
  then have "b64char (unat (39 :: byte))"
    using assms unfolding list_all_iff by blast
  then show False by (simp add: b64char_def)
qed

lemma bytes_repr_b64:
  assumes "list_all (\<lambda>b. b64char (unat b)) (bs :: byte list)"
  shows "bytes_repr bs = [98, 39] @ map unat bs @ [39]"
  using b64char_not_quote [OF assms] concat_repr_byte [OF assms]
  by (simp add: bytes_repr_def repr_quote_def)

lemma format0_b64encode:
  "format0 (b64encode B) = [98, 39] @ map unat (b64encode B) @ [39]"
  by (simp add: format0_def bytes_repr_b64 b64encode_alphabet)

lemma escape_ascii_b64char: "b64char c \<Longrightarrow> escape_ascii c = [c]"
  by (auto simp add: escape_ascii_def b64char_def)

lemma concat_escape_ascii_unat:
  "list_all (\<lambda>b. b64char (unat b)) (bs :: byte list)
     \<Longrightarrow> concat (map (escape_ascii \<circ> unat) bs) = map unat bs"
  by (induction bs) (simp_all add: escape_ascii_b64char)

lemma b64_text: "list_all b64char (map unat (b64encode B))"
  using b64encode_alphabet [of B] by (simp add: list_all_iff)

lemma encode_basestring_ascii_format0:
  "encode_basestring_ascii (format0 (b64encode B))
     = [34, 98, 39] @ map unat (b64encode B) @ [39, 34]"
  by (simp add: encode_basestring_ascii_def format0_b64encode escape_ascii_def
      concat_escape_ascii_unat b64encode_alphabet)

lemma body_text:
  "json_dumps (PyList [PyDict [(ascii ''image_in_base64'', PyStr (format0 (b64encode B))),
                               (ascii ''parameters'', parameters)]])
     = ascii ''[{\"image_in_base64\": \"b'' @ [39] @ map unat (b64encode B) @ [39]
       @ ascii ''\", \"parameters\": '' @ json_dumps parameters @ ascii ''}]''"
  by (simp add: encode_basestring_ascii_format0)
     (simp add: ascii_def encode_basestring_ascii_def escape_ascii_def)

lemma ascii_b: "ascii ''b'' = [98]"
  by (simp add: ascii_def)

lemma score_readable:
  assumes "files w image_path = Content B"
  shows "sent (trace (score_image_with_http w image_path u key parameters))
     = [\<lparr>http_method = ascii ''POST'', url = u,
         data = json_dumps (PyList [PyDict [(ascii ''image_in_base64'', PyStr (format0 (b64encode B))),
                                           (ascii ''parameters'', parameters)]]),
         headers = (case key of
               None \<Rightarrow> [(ascii ''Content-Type'', ascii ''application/json'')]
             | Some k \<Rightarrow>
                 [(ascii ''Content-Type'', ascii ''application/json''),
                  (ascii ''Authorization'', ascii ''Bearer '' @ k)])\<rparr>]"
  using assms
  by (simp add: score_image_with_http_def with_open_read_def open_rb_def read_def Let_def
      split: sum.splits)

section \<open>Reading back what \<^verbatim>\<open>json.dumps\<close> wrote\<close>

lemma hex_value_hexdigit: "d < 16 \<Longrightarrow> hex_value (hexdigit d) = Some d"
  by (auto simp add: hex_value_def hexdigit_def)

lemma four_hex_digits:
  assumes "n < 65536"
  shows "((n div 4096 mod 16 * 16 + n div 256 mod 16) * 16 + n div 16 mod 16) * 16 + n mod 16
           = (n::nat)"
proof -
  define q1 where "q1 = n div 16"
  define q2 where "q2 = q1 div 16"
  define q3 where "q3 = q2 div 16"
  have d2: "n div 256 = q2"
    unfolding q2_def q1_def by (simp add: div_mult2_eq [symmetric])
  have d3: "n div 4096 = q3"
    unfolding q3_def q2_def q1_def by (simp add: div_mult2_eq [symmetric])
  have "q3 < 16"
    using assms unfolding d3 [symmetric] by simp
  then have m3: "q3 mod 16 = q3" by simp
  define r0 where "r0 = n mod 16"
  define r1 where "r1 = q1 mod 16"
  define r2 where "r2 = q2 mod 16"
  have e1: "n = 16 * q1 + r0" unfolding q1_def r0_def by simp
  have e2: "q1 = 16 * q2 + r1" unfolding q2_def r1_def by simp
  have e3: "q2 = 16 * q3 + r2" unfolding q3_def r2_def by simp
  have "q3 * 16 + r2 = q2" using e3 by simp
  moreover have "q2 * 16 + r1 = q1" using e2 by simp
  moreover have "q1 * 16 + r0 = n" using e1 by simp
  ultimately have "((q3 * 16 + r2) * 16 + r1) * 16 + r0 = n"
    by simp
  then show ?thesis
    unfolding d2 d3 m3 q1_def [symmetric] r0_def r1_def r2_def .
qed

lemma decode_format_04x:
  assumes "n < 65536"
  shows "decode_uXXXX (format_04x n @ rest) = Some n"
  using four_hex_digits [OF assms]
  by (simp add: format_04x_def hex_value_hexdigit del: mod_less)

lemma length_format_04x: "length (format_04x n) = 4"
  by (simp add: format_04x_def)

lemma scanstring_u_escape:
  assumes "n < 65536" and "\<not> (0xd800 \<le> n \<and> n \<le> 0xdbff)"
  shows "scanstring acc (u_escape n @ rest) = scanstring (n # acc) rest"
  using assms
  by (auto simp add: u_escape_def decode_format_04x length_format_04x)

lemma scanstring_surrogate_pair:
  assumes "0x10000 \<le> c" and "c < 0x110000"
  shows "scanstring acc
           (u_escape (0xd800 + (c - 0x10000) div 1024 mod 1024)
            @ u_escape (0xdc00 + (c - 0x10000) mod 1024) @ rest)
         = scanstring (c # acc) rest"
proof -
  define m where "m = c - 0x10000"
  define hi where "hi = 0xd800 + m div 1024 mod 1024"
  define lo where "lo = 0xdc00 + m mod 1024"
  have m: "m < 1024 * 1024" using assms unfolding m_def by simp
  then have q: "m div 1024 < 1024" by (simp add: div_less_iff_less_mult)
  have hi: "0xd800 \<le> hi" "hi \<le> 0xdbff" "hi < 65536"
    using q unfolding hi_def by simp_all
  have lo: "0xdc00 \<le> lo" "lo \<le> 0xdfff" "lo < 65536"
    unfolding lo_def by simp_all
  have "(hi - 0xd800) * 1024 + (lo - 0xdc00) = m"
    using q unfolding hi_def lo_def by simp
  then have c: "0x10000 + ((hi - 0xd800) * 1024 + (lo - 0xdc00)) = c"
    using assms unfolding m_def by simp
  have "scanstring acc (u_escape hi @ u_escape lo @ rest) = scanstring (c # acc) rest"
    using hi(1,2) lo(1,2) c
    by (simp add: u_escape_def decode_format_04x [OF hi(3)] decode_format_04x [OF lo(3)]
        length_format_04x)
  then show ?thesis
    unfolding hi_def lo_def m_def .
qed

lemma scanstring_escape_ascii:
  assumes "scalar c"
  shows "scanstring acc (escape_ascii c @ rest) = scanstring (c # acc) rest"
proof -
  consider "c = 92 \<or> c = 34 \<or> c = 8 \<or> c = 12 \<or> c = 10 \<or> c = 13 \<or> c = 9"
    | "32 \<le> c" "c \<le> 126" "c \<noteq> 92" "c \<noteq> 34"
    | "c < 32 \<or> 126 < c" "c < 0x10000" "c \<noteq> 8" "c \<noteq> 12" "c \<noteq> 10" "c \<noteq> 13" "c \<noteq> 9"
    | "0x10000 \<le> c"
    by linarith
  then show ?thesis
  proof cases
    case 1
    then show ?thesis
      by (auto simp add: escape_ascii_def backslash_def)
  next
    case 2
    then show ?thesis
      by (simp add: escape_ascii_def)
  next
    case 3
    then have e: "escape_ascii c = u_escape c"
      by (auto simp add: escape_ascii_def)
    have "\<not> (0xd800 \<le> c \<and> c \<le> 0xdbff)"
      using assms by (auto simp add: scalar_def)
    then show ?thesis
      unfolding e using 3(2) by (intro scanstring_u_escape) simp_all
  next
    case 4
    then have e: "escape_ascii c = u_escape (0xd800 + (c - 0x10000) div 1024 mod 1024)
           @ u_escape (0xdc00 + (c - 0x10000) mod 1024)"
      by (simp add: escape_ascii_def)
    have "c < 0x110000"
      using assms by (simp add: scalar_def)
    show ?thesis
      unfolding e append_assoc by (rule scanstring_surrogate_pair [OF 4 \<open>c < 0x110000\<close>])
  qed
qed

lemma scanstring_escaped:
  "list_all scalar s \<Longrightarrow>
     scanstring acc (concat (map escape_ascii s) @ 34 # rest) = Some (rev acc @ s, rest)"
  by (induction s arbitrary: acc) (simp_all add: scanstring_escape_ascii)

lemma scan_once_string:
  "list_all scalar s \<Longrightarrow>
     scan_once dec (encode_basestring_ascii s @ rest) = Some (PyStr s, rest)"
  by (simp add: encode_basestring_ascii_def scanstring_escaped)

lemma takeWhile_digits_append:
  assumes "list_all is_digit ds" and "case rest of [] \<Rightarrow> True | c # cs \<Rightarrow> \<not> is_digit c"
  shows "takeWhile is_digit (ds @ rest) = ds" and "dropWhile is_digit (ds @ rest) = rest"
  using assms
  by (induction ds) (auto split: list.splits)

lemma decimal_0: "decimal 0 = [48]"
  by (subst decimal.simps) simp

lemma decimal_digits: "list_all is_digit (decimal n)"
proof (induction n rule: decimal.induct)
  case (1 n)
  have d: "is_digit (48 + n mod 10)" by (simp add: is_digit_def)
  show ?case
  proof (cases "n < 10")
    case True
    then show ?thesis
      by (subst decimal.simps) (simp add: is_digit_def)
  next
    case False
    then show ?thesis
      using 1 d by (subst decimal.simps) simp
  qed
qed

lemma decimal_Cons: "\<exists>d ds. decimal n = d # ds \<and> is_digit d \<and> (n \<noteq> 0 \<longrightarrow> d \<noteq> 48)"
proof (induction n rule: decimal.induct)
  case (1 n)
  show ?case
  proof (cases "n < 10")
    case True
    then show ?thesis
      by (subst decimal.simps) (auto simp add: is_digit_def)
  next
    case False
    then have "n div 10 \<noteq> 0" by simp
    with 1 False obtain d ds where "decimal (n div 10) = d # ds" "is_digit d" "d \<noteq> 48"
      by auto
    then show ?thesis
      using False by (subst decimal.simps) simp
  qed
qed

lemma int_digits_snoc: "int_digits a (ds @ [d]) = int_digits a ds * 10 + (d - 48)"
  by (induction ds arbitrary: a) simp_all

lemma int_digits_decimal: "int_digits 0 (decimal n) = n"
proof (induction n rule: decimal.induct)
  case (1 n)
  show ?case
  proof (cases "n < 10")
    case True
    then show ?thesis by (subst decimal.simps) simp
  next
    case False
    then show ?thesis
      using 1 by (subst decimal.simps) (simp add: int_digits_snoc)
  qed
qed

lemma delimited_not_digit:
  "delimited rest \<Longrightarrow> (case rest of [] \<Rightarrow> True | c # cs \<Rightarrow> \<not> is_digit c)"
  by (auto simp add: delimited_def is_digit_def split: list.splits)

lemma match_integer_decimal:
  assumes "delimited rest"
  shows "match_integer (decimal n @ rest) = Some (decimal n, rest)"
proof -
  obtain d ds where d: "decimal n = d # ds" "is_digit d" "n \<noteq> 0 \<longrightarrow> d \<noteq> 48"
    using decimal_Cons [of n] by blast
  have ds: "list_all is_digit ds"
    using decimal_digits [of n] d(1) by simp
  note t = takeWhile_digits_append [OF ds delimited_not_digit [OF assms]]
  show ?thesis
  proof (cases "n = 0")
    case True
    then show ?thesis
      by (simp add: decimal_0 match_integer_def)
  next
    case False
    then have "49 \<le> d" "d \<le> 57"
      using d by (auto simp add: is_digit_def)
    then show ?thesis
      unfolding d(1) by (simp add: match_integer_def t)
  qed
qed

lemma no_sign_decimal:
  "(case decimal n @ rest of
      [] \<Rightarrow> ([], decimal n @ rest)
    | c # r \<Rightarrow> if c = 45 then ([c], r) else ([], decimal n @ rest))
   = ([], decimal n @ rest)"
proof -
  obtain d ds where d: "decimal n = d # ds" "is_digit d"
    using decimal_Cons [of n] by blast
  then have "d \<noteq> 45" by (auto simp add: is_digit_def)
  then show ?thesis
    using d(1) by simp
qed

lemma match_fraction_delimited: "delimited rest \<Longrightarrow> match_fraction rest = ([], rest)"
  by (auto simp add: match_fraction_def delimited_def split: list.splits)

lemma match_exponent_delimited: "delimited rest \<Longrightarrow> match_exponent rest = ([], rest)"
  by (auto simp add: match_exponent_def delimited_def split: list.splits)

lemma match_number_int:
  assumes "delimited rest" and "max_digits dec = 0"
  shows "match_number dec (int_repr i @ rest) = Some (PyInt i, rest)"
proof -
  note m = match_integer_decimal [OF assms(1), of "nat \<bar>i\<bar>"]
  show ?thesis
  proof (cases "i < 0")
    case True
    then have r: "int_repr i = 45 # decimal (nat \<bar>i\<bar>)"
      by (simp add: int_repr_def abs_if)
    show ?thesis
      unfolding r using True m assms
      by (simp add: match_number_def match_fraction_delimited match_exponent_delimited
          int_digits_decimal)
  next
    case False
    then have r: "int_repr i = decimal (nat \<bar>i\<bar>)"
      by (simp add: int_repr_def abs_if)
    show ?thesis
      unfolding r using False m assms
      by (simp add: match_number_def match_fraction_delimited match_exponent_delimited
          int_digits_decimal no_sign_decimal)
  qed
qed

lemma scan_once_int:
  assumes "delimited rest" and "max_digits dec = 0"
  shows "scan_once dec (int_repr i @ rest) = Some (PyInt i, rest)"
proof -
  obtain d ds where d: "decimal (nat \<bar>i\<bar>) = d # ds" "is_digit d"
    using decimal_Cons [of "nat \<bar>i\<bar>"] by blast
  note m = match_number_int [OF assms, of i]
  show ?thesis
  proof (cases "i < 0")
    case True
    then have r: "int_repr i = 45 # d # ds"
      using d by (simp add: int_repr_def abs_if)
    show ?thesis
      using m d(2) unfolding r by (auto simp add: is_digit_def)
  next
    case False
    then have r: "int_repr i = d # ds"
      using d by (simp add: int_repr_def abs_if)
    show ?thesis
      using m d(2) unfolding r by (auto simp add: is_digit_def)
  qed
qed

lemma takeWhile_append_stop:
  assumes "case rest of [] \<Rightarrow> True | c # cs \<Rightarrow> \<not> P c"
  shows "takeWhile P (xs @ rest) = takeWhile P xs"
    and "dropWhile P (xs @ rest) = dropWhile P xs @ rest"
  using assms by (induction xs) (auto split: list.splits)

lemma match_integer_append:
  assumes "match_integer cs = Some (ip, r)" and "delimited rest"
  shows "match_integer (cs @ rest) = Some (ip, r @ rest)"
  using assms(1) takeWhile_append_stop [OF delimited_not_digit [OF assms(2)]]
  by (auto simp add: match_integer_def split: list.splits if_splits)

lemma match_fraction_append:
  assumes "match_fraction cs = (f, r)" and "delimited rest"
  shows "match_fraction (cs @ rest) = (f, r @ rest)"
  using assms(1) takeWhile_append_stop [OF delimited_not_digit [OF assms(2)]]
    match_fraction_delimited [OF assms(2)]
  by (cases cs) (auto simp add: match_fraction_def split: if_splits)

lemma match_exponent_append:
  assumes "match_exponent cs = (e, r)" and "delimited rest"
  shows "match_exponent (cs @ rest) = (e, r @ rest)"
proof (cases cs)
  case Nil
  then show ?thesis
    using assms match_exponent_delimited [OF assms(2)] by (simp add: match_exponent_def)
next
  case (Cons x xs)
  note t = takeWhile_append_stop [OF delimited_not_digit [OF assms(2)]]
  have nd: "takeWhile is_digit rest = []"
    using delimited_not_digit [OF assms(2)] by (cases rest) auto
  have ns: "case rest of [] \<Rightarrow> True | s # t \<Rightarrow> s \<noteq> 45 \<and> s \<noteq> 43"
    using assms(2) by (auto simp add: delimited_def split: list.splits)
  show ?thesis
  proof (cases xs)
    case Nil
    then show ?thesis
      using assms(1) Cons nd ns
      by (cases rest) (auto simp add: match_exponent_def split: if_splits)
  next
    case (Cons y ys)
    then show ?thesis
      using assms(1) \<open>cs = x # xs\<close> t
      by (auto simp add: match_exponent_def Let_def split: if_splits)
  qed
qed

lemma match_number_append:
  assumes "match_number dec cs = Some (v, r)" and "delimited rest"
  shows "match_number dec (cs @ rest) = Some (v, r @ rest)"
proof -
  define r0 where "r0 = (case cs of [] \<Rightarrow> cs | c # r \<Rightarrow> if c = 45 then r else cs)"
  define sgn where "sgn = (case cs of [] \<Rightarrow> [] | c # r \<Rightarrow> if c = 45 then [c] else [])"
  have s: "(case cs of [] \<Rightarrow> ([], cs) | c # r \<Rightarrow> if c = 45 then ([c], r) else ([], cs))
        = (sgn, r0)"
    unfolding r0_def sgn_def by (auto split: list.splits)
  obtain ip r1 where i: "match_integer r0 = Some (ip, r1)"
    using assms(1) unfolding match_number_def s by (auto split: option.splits)
  obtain frac r2 where f: "match_fraction r1 = (frac, r2)" by (cases "match_fraction r1")
  obtain ex r3 where e: "match_exponent r2 = (ex, r3)" by (cases "match_exponent r2")
  have ne: "cs \<noteq> []"
    using i unfolding r0_def by (auto simp add: match_integer_def split: list.splits)
  have s': "(case cs @ rest of [] \<Rightarrow> ([], cs @ rest)
             | c # r \<Rightarrow> if c = 45 then ([c], r) else ([], cs @ rest))
        = (sgn, r0 @ rest)"
    using ne unfolding r0_def sgn_def by (cases cs) auto
  show ?thesis
    using assms(1)
    unfolding match_number_def s s'
    by (auto simp add: i f e match_integer_append [OF i assms(2)]
        match_fraction_append [OF f assms(2)] match_exponent_append [OF e assms(2)]
        split: if_splits)
qed

lemma match_integer_head:
  "match_integer cs = Some x \<Longrightarrow> \<exists>d ds. cs = d # ds \<and> is_digit d"
  by (cases cs) (auto simp add: match_integer_def is_digit_def split: if_splits)

lemma match_number_head:
  assumes "match_number dec cs = Some (v, r)"
  shows "\<exists>c cs'. cs = c # cs' \<and> (is_digit c \<or> (c = 45 \<and> (\<exists>d ds. cs' = d # ds \<and> is_digit d)))"
proof (cases cs)
  case Nil
  then show ?thesis
    using assms by (simp add: match_number_def match_integer_def)
next
  case (Cons c cs')
  show ?thesis
  proof (cases "c = 45")
    case True
    then obtain x where "match_integer cs' = Some x"
      using assms Cons by (auto simp add: match_number_def split: option.splits)
    then show ?thesis
      using match_integer_head [of cs' x] Cons True by blast
  next
    case False
    then obtain x where "match_integer (c # cs') = Some x"
      using assms Cons by (auto simp add: match_number_def split: option.splits)
    then show ?thesis
      using match_integer_head [of "c # cs'" x] Cons by auto
  qed
qed

lemma scan_once_number:
  assumes "match_number dec cs = Some (v, r)" and "delimited rest"
  shows "scan_once dec (cs @ rest) = Some (v, r @ rest)"
proof -
  obtain c cs' where c: "cs = c # cs'"
      "is_digit c \<or> (c = 45 \<and> (\<exists>d ds. cs' = d # ds \<and> is_digit d))"
    using match_number_head [OF assms(1)] by blast
  have m: "match_number dec (c # cs' @ rest) = Some (v, r @ rest)"
    using match_number_append [OF assms] unfolding c(1) by simp
  from c(2) show ?thesis
  proof
    assume "is_digit c"
    then have "c \<noteq> 34" "c \<noteq> 123" "c \<noteq> 91" "c \<noteq> 110" "c \<noteq> 116" "c \<noteq> 102"
        "c \<noteq> 78" "c \<noteq> 73" "c \<noteq> 45"
      by (simp_all add: is_digit_def)
    then show ?thesis
      unfolding c(1) by (simp add: m)
  next
    assume "c = 45 \<and> (\<exists>d ds. cs' = d # ds \<and> is_digit d)"
    then obtain d ds where d: "c = 45" "cs' = d # ds" "is_digit d" by blast
    then have "d \<noteq> 73" by (simp add: is_digit_def)
    then show ?thesis
      using m unfolding c(1) d(1,2) by simp
  qed
qed

lemma match_number_float:
  "match_number dec t = Some (PyFloat x, r) \<Longrightarrow> match_number dec' t = Some (PyFloat x, r)"
  by (auto simp add: match_number_def Let_def split: option.splits prod.splits if_splits)

lemma scan_once_float:
  assumes "float_text t" and "delimited rest" and "parse_constant dec \<or> finite_floats (PyFloat t)"
  shows "scan_once dec (t @ rest) = Some (PyFloat t, rest)"
proof -
  consider "parse_constant dec"
      "t = ascii ''NaN'' \<or> t = ascii ''Infinity'' \<or> t = ascii ''-Infinity''"
    | "match_number reader t = Some (PyFloat t, [])"
    using assms(1,3) unfolding float_text_def by auto
  then show ?thesis
  proof cases
    case 1
    then show ?thesis by (auto simp add: ascii_def)
  next
    case 2
    show ?thesis
      using scan_once_number [OF match_number_float [OF 2, of dec] assms(2)] by simp
  qed
qed

lemma starts_append: "starts s \<Longrightarrow> starts (s @ r)"
  by (cases s) (simp_all add: starts_def)

lemma skip_ws_starts: "starts s \<Longrightarrow> skip_ws s = s"
  by (cases s) (simp_all add: starts_def skip_ws_def)

lemma starts_Cons: "starts s \<Longrightarrow> \<exists>c cs. s = c # cs \<and> c \<noteq> 93 \<and> c \<noteq> 125"
  by (cases s) (simp_all add: starts_def)

lemma starts_decimal: "starts (decimal n)"
  using decimal_Cons [of n] by (auto simp add: starts_def is_digit_def is_ws_def)

lemma starts_float: "float_text t \<Longrightarrow> starts t"
  using match_number_head [of reader t "PyFloat t" "[]"]
  by (auto simp add: float_text_def starts_def ascii_def is_digit_def is_ws_def)

lemma starts_json_dumps: "json_value v \<Longrightarrow> starts (json_dumps v)"
proof (cases v)
  case (PyInt i)
  then show ?thesis
    using starts_decimal [of "nat i"]
    by (simp add: int_repr_def) (simp add: starts_def is_ws_def)
next
  case (PyFloat t)
  then show "json_value v \<Longrightarrow> ?thesis"
    by (simp add: starts_float)
qed (simp_all add: starts_def ascii_def is_ws_def encode_basestring_ascii_def)

lemma starts_join:
  "xs \<noteq> [] \<Longrightarrow> starts (hd xs) \<Longrightarrow> starts (join sep xs)"
  by (induction sep xs rule: join.induct) (simp_all add: starts_append)

lemma enter_unlimited: "unlimited dec \<Longrightarrow> enter dec = dec"
  by (simp add: enter_def unlimited_def)

lemma unlimited_simps: "unlimited reader" "unlimited strict"
  by (simp_all add: unlimited_def reader_def strict_def)

lemma delimited_simps: "delimited (44 # r)" "delimited (93 # r)" "delimited (125 # r)" "delimited []"
  by (simp_all add: delimited_def)

lemma not_ws: "\<not> is_ws 44" "\<not> is_ws 93" "\<not> is_ws 125" "\<not> is_ws 58" "is_ws 32"
  by (simp_all add: is_ws_def)

lemma skip_ws_Cons_simps:
  "\<not> is_ws c \<Longrightarrow> skip_ws (c # r) = c # r"
  "is_ws c \<Longrightarrow> skip_ws (c # r) = skip_ws r"
  by (simp_all add: skip_ws_def)

lemma parse_array_join:
  assumes "\<forall>x \<in> set xs. json_value x \<and> reads_back dec x" and "xs \<noteq> []"
  shows "parse_array dec acc (join (ascii '', '') (map json_dumps xs) @ 93 # rest)
     = Some (PyList (rev acc @ xs), rest)"
  using assms
proof (induction xs arbitrary: acc)
  case Nil
  then show ?case by simp
next
  case (Cons x ys)
  have x: "scan_once dec (json_dumps x @ r) = Some (x, r)" if "delimited r" for r
    using Cons.prems(1) that by (simp add: reads_back_def)
  show ?case
  proof (cases ys)
    case Nil
    show ?thesis
      unfolding Nil
      by (subst parse_array.simps)
         (simp add: x delimited_simps skip_ws_Cons_simps not_ws)
  next
    case (Cons y zs)
    have s: "starts (join (ascii '', '') (map json_dumps (y # zs)) @ 93 # rest)"
      using Cons.prems(1) \<open>ys = y # zs\<close>
      by (intro starts_append starts_join) (simp_all add: starts_json_dumps)
    have ih: "parse_array dec (x # acc)
                (join (ascii '', '') (map json_dumps (y # zs)) @ 93 # rest)
              = Some (PyList (rev (x # acc) @ y # zs), rest)"
      using Cons.IH [of "x # acc"] Cons.prems(1) \<open>ys = y # zs\<close> by simp
    have j: "join (ascii '', '') (map json_dumps (x # y # zs)) @ 93 # rest
       = json_dumps x @ 44 # 32 # join (ascii '', '') (map json_dumps (y # zs)) @ 93 # rest"
      by (simp add: ascii_def)
    show ?thesis
      unfolding \<open>ys = y # zs\<close> j
      by (subst parse_array.simps)
         (simp add: x delimited_simps skip_ws_Cons_simps not_ws
            skip_ws_starts [OF s, simplified] ih [simplified])
  qed
qed

lemma scan_once_list:
  assumes "\<forall>x \<in> set xs. json_value x \<and> reads_back dec x" and "unlimited dec"
  shows "scan_once dec (json_dumps (PyList xs) @ rest) = Some (PyList xs, rest)"
proof (cases xs)
  case Nil
  then show ?thesis
    using assms(2) by (simp add: unlimited_def skip_ws_Cons_simps not_ws)
next
  case (Cons y zs)
  have s: "starts (join (ascii '', '') (map json_dumps xs) @ 93 # rest)"
    using assms Cons
    by (intro starts_append starts_join) (simp_all add: starts_json_dumps)
  then obtain d r where d: "join (ascii '', '') (map json_dumps xs) @ 93 # rest = d # r"
      "d \<noteq> 93"
    using starts_Cons by blast
  have p: "parse_array dec [] (d # r) = Some (PyList xs, rest)"
    using parse_array_join [OF assms(1), of "[]" rest] Cons unfolding d(1) by simp
  have n: "nesting dec \<noteq> Some 0"
    using assms(2) by (simp add: unlimited_def)
  show ?thesis
    using skip_ws_starts [OF s] d n
    by (simp add: enter_unlimited [OF assms(2)] p)
qed

lemma dict_setitem_new: "k \<notin> fst ` set d \<Longrightarrow> dict_setitem d k v = d @ [(k, v)]"
  by (induction d) auto

lemma foldl_dict_setitem:
  "distinct (map fst (d @ items)) \<Longrightarrow>
     foldl (\<lambda>d (k, v). dict_setitem d k v) d items = d @ items"
proof (induction items arbitrary: d)
  case Nil
  show ?case by simp
next
  case (Cons kv items)
  obtain k v where kv: "kv = (k, v)" by (cases kv)
  have "k \<notin> fst ` set d"
    using Cons.prems kv by auto
  then have s: "dict_setitem d k v = d @ [(k, v)]"
    by (rule dict_setitem_new)
  have "distinct (map fst ((d @ [(k, v)]) @ items))"
    using Cons.prems kv by simp
  from Cons.IH [OF this] show ?case
    by (simp add: kv s)
qed

lemma dict_of_pairs_distinct: "distinct (map fst items) \<Longrightarrow> dict_of_pairs items = items"
  using foldl_dict_setitem [of "[]" items] by (simp add: dict_of_pairs_def)

lemma json_dumps_PyDict:
  "json_dumps (PyDict items) = [123] @ join (ascii '', '') (map dumps_item items) @ [125]"
proof -
  have "(\<lambda>(k, v). encode_basestring_ascii k @ ascii '': '' @ json_dumps v) = dumps_item"
    by (auto simp add: dumps_item_def)
  then show ?thesis by simp
qed

lemma starts_dumps_item: "starts (dumps_item kv)"
  by (simp add: dumps_item_def encode_basestring_ascii_def starts_def is_ws_def)

lemma parse_object_item:
  assumes "list_all scalar k" and "starts (json_dumps v)"
  shows "parse_object dec pairs (dumps_item (k, v) @ r)
     = (case scan_once dec (json_dumps v @ r) of
          None \<Rightarrow> None
        | Some (v', r3) \<Rightarrow>
            (case skip_ws r3 of
               [] \<Rightarrow> None
             | d # r4 \<Rightarrow>
                 if d = 125 then Some (PyDict (dict_of_pairs (rev ((k, v') # pairs))), r4)
                 else if d = 44 then parse_object dec ((k, v') # pairs) (skip_ws r4)
                 else None))"
proof -
  have s: "skip_ws (json_dumps v @ r) = json_dumps v @ r"
    using assms(2) by (intro skip_ws_starts starts_append)
  show ?thesis
    by (subst parse_object.simps)
       (simp add: dumps_item_def encode_basestring_ascii_def scanstring_escaped [OF assms(1)]
          ascii_def skip_ws_Cons_simps not_ws s)
qed

lemma parse_object_join:
  assumes "\<forall>kv \<in> set items.
      list_all scalar (fst kv) \<and> json_value (snd kv) \<and> reads_back dec (snd kv)"
    and "items \<noteq> []"
  shows "parse_object dec pairs (join (ascii '', '') (map dumps_item items) @ 125 # rest)
     = Some (PyDict (dict_of_pairs (rev pairs @ items)), rest)"
  using assms
proof (induction items arbitrary: pairs)
  case Nil
  then show ?case by simp
next
  case (Cons kv ys)
  obtain k v where kv: "kv = (k, v)" by (cases kv)
  have k: "list_all scalar k" and st: "starts (json_dumps v)"
    using Cons.prems(1) kv by (simp_all add: starts_json_dumps)
  have x: "scan_once dec (json_dumps v @ r) = Some (v, r)" if "delimited r" for r
    using Cons.prems(1) kv that by (simp add: reads_back_def)
  note item = parse_object_item [OF k st]
  show ?case
  proof (cases ys)
    case Nil
    show ?thesis
      unfolding Nil kv
      by (simp add: item x delimited_simps skip_ws_Cons_simps not_ws)
  next
    case (Cons y zs)
    have s: "starts (join (ascii '', '') (map dumps_item (y # zs)) @ 125 # rest)"
      by (intro starts_append starts_join) (simp_all add: starts_dumps_item)
    have ih: "parse_object dec ((k, v) # pairs)
                (join (ascii '', '') (map dumps_item (y # zs)) @ 125 # rest)
              = Some (PyDict (dict_of_pairs (rev ((k, v) # pairs) @ y # zs)), rest)"
      using Cons.IH [of "(k, v) # pairs"] Cons.prems(1) \<open>ys = y # zs\<close> by simp
    have j: "join (ascii '', '') (map dumps_item ((k, v) # y # zs)) @ 125 # rest
       = dumps_item (k, v) @ 44 # 32 # join (ascii '', '') (map dumps_item (y # zs)) @ 125 # rest"
      by (simp add: ascii_def)
    show ?thesis
      unfolding \<open>ys = y # zs\<close> kv j
      by (simp add: item x delimited_simps skip_ws_Cons_simps not_ws
            skip_ws_starts [OF s, simplified] ih [simplified])
  qed
qed

lemma scan_once_dict:
  assumes "\<forall>kv \<in> set items.
      list_all scalar (fst kv) \<and> json_value (snd kv) \<and> reads_back dec (snd kv)"
    and "distinct (map fst items)" and "unlimited dec"
  shows "scan_once dec (json_dumps (PyDict items) @ rest) = Some (PyDict items, rest)"
proof (cases items)
  case Nil
  then show ?thesis
    using assms(3) by (simp add: unlimited_def skip_ws_Cons_simps not_ws)
next
  case (Cons y zs)
  have s: "starts (join (ascii '', '') (map dumps_item items) @ 125 # rest)"
    using Cons
    by (intro starts_append starts_join) (simp_all add: starts_dumps_item)
  then obtain d r where d: "join (ascii '', '') (map dumps_item items) @ 125 # rest = d # r"
      "d \<noteq> 125"
    using starts_Cons by blast
  have p: "parse_object dec [] (d # r) = Some (PyDict items, rest)"
    using parse_object_join [OF assms(1), of "[]" rest] Cons dict_of_pairs_distinct [OF assms(2)]
    unfolding d(1) by simp
  have n: "nesting dec \<noteq> Some 0"
    using assms(3) by (simp add: unlimited_def)
  show ?thesis
    unfolding json_dumps_PyDict
    using skip_ws_starts [OF s] d n
    by (simp add: enter_unlimited [OF assms(3)] p)
qed

lemma reads_back_json_value:
  assumes "unlimited dec"
  shows "json_value v \<Longrightarrow> parse_constant dec \<or> finite_floats v \<Longrightarrow> reads_back dec v"
proof (induction v)
  case PyNone
  show ?case by (simp add: reads_back_def ascii_def)
next
  case (PyBool b)
  show ?case by (simp add: reads_back_def ascii_def)
next
  case (PyInt i)
  have "max_digits dec = 0"
    using assms by (simp add: unlimited_def)
  then show ?case
    unfolding reads_back_def json_dumps.simps
    by (intro allI impI scan_once_int)
next
  case (PyFloat t)
  then have "float_text t" by simp
  then show ?case
    unfolding reads_back_def json_dumps.simps
    using PyFloat.prems(2) by (intro allI impI scan_once_float)
next
  case (PyStr s)
  then have "list_all scalar s" by simp
  then show ?case
    unfolding reads_back_def json_dumps.simps
    by (intro allI impI scan_once_string)
next
  case (PyList xs)
  have "\<forall>x \<in> set xs. json_value x \<and> reads_back dec x"
  proof
    fix x assume m: "x \<in> set xs"
    have j: "json_value x" and f: "parse_constant dec \<or> finite_floats x"
      using PyList.prems m by (auto simp add: list_all_iff)
    show "json_value x \<and> reads_back dec x"
      using PyList.IH [OF m j f] j by simp
  qed
  then have "scan_once dec (json_dumps (PyList xs) @ rest) = Some (PyList xs, rest)" for rest
    by (rule scan_once_list [OF _ assms])
  then show ?case
    unfolding reads_back_def by blast
next
  case (PyDict items)
  have a: "\<forall>kv \<in> set items.
      list_all scalar (fst kv) \<and> json_value (snd kv) \<and> reads_back dec (snd kv)"
  proof
    fix kv assume m: "kv \<in> set items"
    obtain k v where kv: "kv = (k, v)" by (cases kv)
    have j: "list_all scalar k \<and> json_value v" and f: "parse_constant dec \<or> finite_floats v"
      using PyDict.prems m kv by (auto simp add: list_all_iff)
    have "reads_back dec v"
      using PyDict.IH [of kv v] m kv j f by (simp add: snds.simps)
    then show "list_all scalar (fst kv) \<and> json_value (snd kv) \<and> reads_back dec (snd kv)"
      using j kv by simp
  qed
  have d: "distinct (map fst items)"
    using PyDict.prems by simp
  have "scan_once dec (json_dumps (PyDict items) @ rest) = Some (PyDict items, rest)" for rest
    by (rule scan_once_dict [OF a d assms])
  then show ?case
    unfolding reads_back_def by blast
qed

lemma json_decode_json_dumps:
  assumes "unlimited dec" and "json_value v" and "parse_constant dec \<or> finite_floats v"
  shows "json_decode dec (json_dumps v) = Some v"
proof -
  note reads_back_json_value [OF assms, unfolded reads_back_def, rule_format, OF delimited_simps(4)]
  then show ?thesis
    using skip_ws_starts [OF starts_json_dumps [OF assms(2)]]
    by (simp add: json_decode_def skip_ws_def)
qed

lemma json_read_json_dumps: "json_value v \<Longrightarrow> json_read (json_dumps v) = Some v"
  unfolding json_read_def
  by (rule json_decode_json_dumps [OF unlimited_simps(1)]) (simp_all add: reader_def)


section \<open>Decoding a response\<close>

lemmas json_eval =
  json_loads_def json_read_def valid_json_def json_decode_def reader_def strict_def usual_limits_def
  enter_def parse_array.simps parse_object.simps
  skip_ws_def is_ws_def backslash_def match_number_def match_integer_def
  match_fraction_def match_exponent_def is_digit_def dict_of_pairs_def ascii_def hex_value_def

lemmas response_eval = parse_response_def try_block_def loads_obj_def getitem0_def

lemma json_loads_single: "json_loads lim [c] = None \<longleftrightarrow> \<not> is_digit c"
  apply (simp add: json_loads_def json_decode_def skip_ws_def is_ws_def)
  apply (auto simp add: match_number_def match_integer_def match_fraction_def
      match_exponent_def is_digit_def skip_ws_def split: option.splits)
  done

lemma json_loads_single_Some: "json_loads lim [c] = Some v \<Longrightarrow> is_digit c"
  using json_loads_single [of lim c] by auto

lemma parse_response_cases:
  "parse_response lim r = (if accepted lim (r_text r)
      then (case json_loads lim (r_text r) of
              Some (PyList (x # xs)) \<Rightarrow> Inr x
            | Some (PyStr (c # cs)) \<Rightarrow> Inr (PyStr [c])
            | _ \<Rightarrow> Inl (malformed (r_text r)))
      else Inl (malformed (r_text r)))"
  by (auto simp add: response_eval accepted_def malformed_def json_loads_single
      dest: json_loads_single_Some
      split: option.splits pyval.splits list.splits sum.splits)

lemma parse_response_dichotomy:
  "parse_response lim r = Inl (malformed (r_text r)) \<longleftrightarrow> \<not> accepted lim (r_text r)"
  "(\<exists>v. parse_response lim r = Inr v) \<longleftrightarrow> accepted lim (r_text r)"
  by (auto simp add: parse_response_cases accepted_def
      split: option.splits pyval.splits list.splits)

lemma not_accepted_object: "\<not> accepted lim (ascii ''{\"x\":1}'')"
  by (cases "recursion_limit lim = Some 0") (simp_all add: accepted_def json_eval)

lemma not_accepted_not_json_item: "\<not> accepted lim (ascii ''[\"not json\"]'')"
  by (cases "recursion_limit lim = Some 0") (simp_all add: accepted_def json_eval)

lemma object_body_malformed:
  "parse_response lim \<lparr>status_code = st, r_text = ascii ''{\"x\":1}''\<rparr>
   = Inl (malformed (ascii ''{\"x\":1}''))"
  using parse_response_dichotomy(1) [of lim "\<lparr>status_code = st, r_text = ascii ''{\"x\":1}''\<rparr>"]
    not_accepted_object [of lim]
  by simp

lemma not_json_item_malformed:
  "parse_response lim \<lparr>status_code = st, r_text = ascii ''[\"not json\"]''\<rparr>
   = Inl (malformed (ascii ''[\"not json\"]''))"
  using parse_response_dichotomy(1)
      [of lim "\<lparr>status_code = st, r_text = ascii ''[\"not json\"]''\<rparr>"]
    not_accepted_not_json_item [of lim]
  by simp

lemma string_body_1:
  "json_loads usual_limits (ascii ''\"1\"'') = Some (PyStr (ascii ''1''))"
  "parse_response usual_limits \<lparr>status_code = 200, r_text = ascii ''\"1\"''\<rparr>
     = Inr (PyStr (ascii ''1''))"
  by (simp_all add: response_eval json_eval)

lemma string_body_9z:
  "json_loads usual_limits (ascii ''\"9z\"'') = Some (PyStr (ascii ''9z''))"
  "parse_response usual_limits \<lparr>status_code = 200, r_text = ascii ''\"9z\"''\<rparr>
     = Inr (PyStr (ascii ''9''))"
  by (simp_all add: response_eval json_eval)

lemma constant_items:
  "parse_response usual_limits \<lparr>status_code = 200, r_text = ascii ''[\"Infinity\"]''\<rparr>
     = Inr (PyStr (ascii ''Infinity''))"
  "\<not> valid_json (ascii ''Infinity'')"
  "parse_response usual_limits \<lparr>status_code = 200, r_text = ascii ''[\"NaN\"]''\<rparr>
     = Inr (PyStr (ascii ''NaN''))"
  "\<not> valid_json (ascii ''NaN'')"
  by (simp_all add: response_eval json_eval)

lemma cat_reply_parsed:
  "parse_response usual_limits \<lparr>status_code = st, r_text = cat_reply\<rparr>
   = Inr (PyStr (ascii ''{\"label\":\"cat\",\"score\":0.91}''))"
  by (simp add: response_eval json_eval cat_reply_def)

lemma try_block_examples:
  "try_block usual_limits (ascii ''{\"x\":1}'') = Inl KeyError"
  "try_block usual_limits (ascii ''5'') = Inl TypeError"
  "try_block usual_limits (ascii ''[1]'') = Inl TypeError"
  "try_block usual_limits (ascii ''[]'') = Inl IndexError"
  "try_block usual_limits (ascii ''nope'') = Inl JSONDecodeError"
  by (simp_all add: response_eval json_eval)

text \<open>
  The limits count: under a limit of two nestings the inner text \<^verbatim>\<open>[[[0]]]\<close>, which is JSON,
  is not read, and under a limit of three digits neither is \<^verbatim>\<open>1234\<close>.
\<close>

lemma limits_reject_valid_json:
  "valid_json (ascii ''[[[0]]]'')"
  "parse_response \<lparr>recursion_limit = Some 2, int_max_str_digits = 0\<rparr>
     \<lparr>status_code = 200, r_text = ascii ''[\"[[[0]]]\"]''\<rparr>
   = Inl (malformed (ascii ''[\"[[[0]]]\"]''))"
  "valid_json (ascii ''1234'')"
  "parse_response \<lparr>recursion_limit = None, int_max_str_digits = 3\<rparr>
     \<lparr>status_code = 200, r_text = ascii ''[\"1234\"]''\<rparr>
   = Inl (malformed (ascii ''[\"1234\"]''))"
  by (simp_all add: response_eval json_eval malformed_def)

section \<open>What a call does\<close>

lemma score_cases:
  "score_image_with_http w p u key parameters =
     (case files w p of
        OpenFails msg \<Rightarrow>
          \<lparr>result = Inl (OSError msg), trace = [], parameters_after = parameters\<rparr>
      | ReadFails msg \<Rightarrow>
          \<lparr>result = Inl (OSError msg), trace = [Opened p, Closed p],
           parameters_after = parameters\<rparr>
      | Content B \<Rightarrow>
          \<lparr>result = (case endpoint w (the_request B u key parameters) of
                       Inl e \<Rightarrow> Inl e
                     | Inr r \<Rightarrow> parse_response (interpreter w) r),
           trace = [Opened p, Closed p, Sent (the_request B u key parameters)],
           parameters_after = parameters\<rparr>)"
  by (simp add: score_image_with_http_def with_open_read_def open_rb_def read_def Let_def
      the_request_def the_headers_def split: file_state.splits sum.splits)

lemma score_serving:
  "score_image_with_http (serving B st reply) (ascii ''cat.jpg'') u key parameters =
     \<lparr>result = parse_response usual_limits \<lparr>status_code = st, r_text = reply\<rparr>,
      trace = [Opened (ascii ''cat.jpg''), Closed (ascii ''cat.jpg''),
               Sent (the_request B u key parameters)],
      parameters_after = parameters\<rparr>"
  by (simp add: score_cases serving_def)

lemma sent_score:
  "sent (trace (score_image_with_http w p u key parameters)) =
     (case files w p of
        Content B \<Rightarrow> [the_request B u key parameters]
      | _ \<Rightarrow> [])"
  by (simp add: score_cases split: file_state.splits)

lemma cat_body:
  "data (the_request cat_jpg u key (PyDict []))
     = ascii ''[{\"image_in_base64\": \"b'' @ [39] @ ascii ''AAECAwQFBgcICQ=='' @ [39]
       @ ascii ''\", \"parameters\": {}}]''"
proof -
  have e: "map unat (b64encode cat_jpg) = ascii ''AAECAwQFBgcICQ==''"
    by (simp add: cat_jpg_def b2a_def sextet1_def sextet2_def sextet3_def sextet4_def
        table_b2a_base64_def ascii_def)
  show ?thesis
    unfolding the_request_def request.simps body_text e
    by (simp add: ascii_def)
qed

lemma scalar_b64char: "b64char c \<Longrightarrow> scalar c"
  by (auto simp add: b64char_def scalar_def)

lemma scalar_format0: "list_all scalar (format0 (b64encode B))"
proof -
  have "\<forall>x \<in> set (b64encode B). scalar (unat x)"
    using b64_text [of B] scalar_b64char by (auto simp add: list_all_iff)
  then show ?thesis
    by (simp add: format0_b64encode list_all_iff) (simp add: scalar_def)
qed

lemma payload_json_value:
  assumes "json_value parameters"
  shows "json_value (PyList [PyDict
           [(ascii ''image_in_base64'', PyStr (format0 (b64encode B))),
            (ascii ''parameters'', parameters)]])"
  using assms scalar_format0 [of B]
  by (simp add: ascii_def scalar_def)

lemma json_read_payload:
  assumes "json_value parameters"
  shows "json_read (json_dumps (PyList [PyDict
           [(ascii ''image_in_base64'', PyStr (format0 (b64encode B))),
            (ascii ''parameters'', parameters)]]))
     = Some (PyList [PyDict
           [(ascii ''image_in_base64'', PyStr (format0 (b64encode B))),
            (ascii ''parameters'', parameters)]])"
  by (rule json_read_json_dumps [OF payload_json_value [OF assms]])



lemma call_default_unchanged:
  "snd (call_score_image_with_http f w p u key arg) = f"
  by (simp add: call_score_image_with_http_def score_cases Let_def
      split: option.splits file_state.splits)

lemma call_with_defaults_unchanged: "snd (call_with_defaults f calls) = f"
proof (induction calls arbitrary: f)
  case Nil
  show ?case by simp
next
  case (Cons c calls)
  obtain w p u key where c: "c = (w, p, u, key)" by (cases c)
  show ?case
    using Cons [of f] call_default_unchanged [of f w p u key None]
    by (simp add: c split_beta)
qed

lemma call_with_defaults_bodies:
  "\<forall>out \<in> set (fst (call_with_defaults def_score_image_with_http calls)).
     \<forall>req \<in> set (sent (trace out)).
       \<exists>field. data req = json_dumps (PyList [PyDict
         [(ascii ''image_in_base64'', PyStr field), (ascii ''parameters'', PyDict [])]])"
proof (induction calls)
  case Nil
  show ?case by simp
next
  case (Cons c calls)
  obtain w p u key where c: "c = (w, p, u, key)" by (cases c)
  have f: "snd (call_score_image_with_http def_score_image_with_http w p u key None)
      = def_score_image_with_http"
    by (rule call_default_unchanged)
  show ?case
    using Cons f
    by (auto simp add: c split_beta sent_score the_request_def
        call_score_image_with_http_def def_score_image_with_http_def Let_def
        split: file_state.splits)
qed

section \<open>Claims\<close>

text \<open>
  C1 (as amended). For every byte content \<open>B\<close> of the input file, the request body is the
  serialisation of a one-element array whose object holds, under \<^verbatim>\<open>image_in_base64\<close>, the
  text made of \<^verbatim>\<open>b'\<close>, the base64 text of \<open>B\<close> and a closing \<^verbatim>\<open>'\<close> (the \<^verbatim>\<open>repr\<close> of the encoded
  bytes); that field is read back unchanged from the body, and the base64 text between
  \<^verbatim>\<open>b'\<close> and \<^verbatim>\<open>'\<close> decodes to exactly \<open>B\<close>.
\<close>

theorem image_field_is_repr_of_base64:
  "map data (sent (trace (score_image_with_http
       (w\<lparr>files := (files w)(image_path := Content B)\<rparr>) image_path u key parameters)))
     = [json_dumps (PyList [PyDict
          [(ascii ''image_in_base64'', PyStr (ascii ''b'' @ [39] @ map unat (b64encode B) @ [39])),
           (ascii ''parameters'', parameters)]])]
   \<and> image_in_base64_of (json_dumps (PyList [PyDict
          [(ascii ''image_in_base64'', PyStr (ascii ''b'' @ [39] @ map unat (b64encode B) @ [39])),
           (ascii ''parameters'', PyDict [])]]))
     = Some (PyStr (ascii ''b'' @ [39] @ map unat (b64encode B) @ [39]))
   \<and> b64decode (map unat (b64encode B)) = Some B"
proof -
  have f: "ascii ''b'' @ [39] @ map unat (b64encode B) @ [39] = format0 (b64encode B)"
    by (simp add: format0_b64encode ascii_def)
  have "files (w\<lparr>files := (files w)(image_path := Content B)\<rparr>) image_path = Content B"
    by simp
  note s = score_readable [OF this, of u key parameters]
  have "json_value (PyDict [])" by simp
  note l = json_read_payload [OF this, of B]
  show ?thesis
    unfolding f using s l b64decode_b64encode [of B]
    by (simp add: image_in_base64_of_def)
qed

text \<open>
  C1 as stated fails: for the file content \<^verbatim>\<open>Man\<close> the field of the body that is sent is
  \<^verbatim>\<open>b'TWFu'\<close>, which is not base64 text and does not decode, while \<^verbatim>\<open>TWFu\<close> does.
\<close>

theorem image_field_not_base64:
  "map image_in_base64_of (map data (sent (trace (score_image_with_http
       (serving man_jpg 200 cat_reply) (ascii ''cat.jpg'') localhost None (PyDict [])))))
     = [Some (PyStr (ascii ''b'' @ [39] @ ascii ''TWFu'' @ [39]))]
   \<and> b64decode (ascii ''b'' @ [39] @ ascii ''TWFu'' @ [39]) = None
   \<and> b64decode (ascii ''TWFu'') = Some man_jpg"
proof -
  have e: "map unat (b64encode man_jpg) = ascii ''TWFu''"
    by (simp add: man_jpg_def b2a_def sextet1_def sextet2_def sextet3_def sextet4_def
        table_b2a_base64_def ascii_def)
  have "files (serving man_jpg 200 cat_reply) (ascii ''cat.jpg'') = Content man_jpg"
    by (simp add: serving_def)
  note s = score_readable [OF this, of localhost None "PyDict []"]
  have "json_value (PyDict [])" by simp
  note l = json_read_payload [OF this, of man_jpg]
  have d: "b64decode (ascii ''b'' @ [39] @ ascii ''TWFu'' @ [39]) = None"
    by (simp add: ascii_def table_a2b_base64_def)
  show ?thesis
    using s l d b64decode_b64encode [of man_jpg]
    by (simp add: image_in_base64_of_def format0_b64encode e ascii_b)
qed

text \<open>
  C2 (as amended). The file holds the ten bytes 0 to 9, no credential is given and the
  parameters are the empty dict: the body sent is
  \<^verbatim>\<open>[{"image_in_base64": "b'AAECAwQFBgcICQ=='", "parameters": {}}]\<close>, and when the server
  answers with the doubly encoded cat result the function returns the text
  \<^verbatim>\<open>{"label":"cat","score":0.91}\<close>.
\<close>

theorem cat_scenario:
  "map data (sent (trace (score_image_with_http (serving cat_jpg 200 cat_reply)
       (ascii ''cat.jpg'') localhost None (PyDict []))))
     = [ascii ''[{\"image_in_base64\": \"b'' @ [39] @ ascii ''AAECAwQFBgcICQ=='' @ [39]
          @ ascii ''\", \"parameters\": {}}]'']
   \<and> result (score_image_with_http (serving cat_jpg 200 cat_reply)
       (ascii ''cat.jpg'') localhost None (PyDict []))
     = Inr (PyStr (ascii ''{\"label\":\"cat\",\"score\":0.91}''))"
  by (simp add: score_serving cat_body cat_reply_parsed)

text \<open>
  C2 as stated fails: in that scenario the body is not the text with the bare base64
  string \<^verbatim>\<open>"AAECAwQFBgcICQ=="\<close>.
\<close>

theorem cat_scenario_body_differs:
  "map data (sent (trace (score_image_with_http (serving cat_jpg 200 cat_reply)
       (ascii ''cat.jpg'') localhost None (PyDict []))))
     \<noteq> [ascii ''[{\"image_in_base64\": \"AAECAwQFBgcICQ==\", \"parameters\": {}}]'']"
  by (simp add: score_serving cat_body) (simp add: ascii_def)

text \<open>
  C3 (as amended). For every response, and whatever the limits of the interpreter, the
  function raises the error with the raw response text in its message exactly when the
  text is not of the accepted shape: \<^verbatim>\<open>json.loads\<close> does not read it (it is not JSON, the
  constants \<^verbatim>\<open>NaN\<close>, \<^verbatim>\<open>Infinity\<close> and \<^verbatim>\<open>-Infinity\<close> apart, or it nests deeper or holds a
  longer integer than the interpreter allows), or reads it as a value that is neither a
  non-empty array nor a non-empty string, or as an array whose first element is not a
  string that \<^verbatim>\<open>json.loads\<close> reads in its turn, or as a string whose first character is
  not a digit; otherwise it returns. The bodies \<^verbatim>\<open>{"x":1}\<close> and \<^verbatim>\<open>["not json"]\<close> raise that
  error under every limit.
\<close>

theorem malformed_exactly_when_not_accepted:
  "(parse_response lim r = Inl (malformed (r_text r)) \<longleftrightarrow> \<not> accepted lim (r_text r))
   \<and> ((\<exists>v. parse_response lim r = Inr v) \<longleftrightarrow> accepted lim (r_text r))
   \<and> malformed (r_text r)
       = ValueError (ascii ''Incorrect output format. Result cant not be parsed: '' @ r_text r)
   \<and> parse_response lim \<lparr>status_code = st, r_text = ascii ''{\"x\":1}''\<rparr>
       = Inl (malformed (ascii ''{\"x\":1}''))
   \<and> parse_response lim \<lparr>status_code = st, r_text = ascii ''[\"not json\"]''\<rparr>
       = Inl (malformed (ascii ''[\"not json\"]''))"
  using parse_response_dichotomy [of lim r] object_body_malformed [of lim st]
    not_json_item_malformed [of lim st]
  by (simp add: malformed_def)

text \<open>
  C3 as stated fails twice. The body \<^verbatim>\<open>"1"\<close> is valid JSON and not an array, and it is
  decoded without error (indexing a \<^verbatim>\<open>str\<close> gives its first character, and \<^verbatim>\<open>1\<close> is
  valid JSON). The body \<^verbatim>\<open>["Infinity"]\<close> is decoded without error too, although its first
  element, the text \<^verbatim>\<open>Infinity\<close>, is not valid JSON.
\<close>

theorem json_string_body_accepted:
  "json_loads usual_limits (ascii ''\"1\"'') = Some (PyStr (ascii ''1''))
   \<and> parse_response usual_limits \<lparr>status_code = 200, r_text = ascii ''\"1\"''\<rparr>
       = Inr (PyStr (ascii ''1''))
   \<and> parse_response usual_limits \<lparr>status_code = 200, r_text = ascii ''[\"Infinity\"]''\<rparr>
       = Inr (PyStr (ascii ''Infinity''))
   \<and> \<not> valid_json (ascii ''Infinity'')"
  using string_body_1 constant_items(1,2) by simp

text \<open>
  C4. When the credential is omitted, no request that is sent carries an
  \<^verbatim>\<open>Authorization\<close> header; when it is the token \<open>t\<close>, the header of every request sent is
  \<^verbatim>\<open>Bearer\<close>, one space, and \<open>t\<close>.
\<close>

theorem authorization_header:
  "(\<forall>req \<in> set (sent (trace (score_image_with_http w p u None parameters))).
      map_of (headers req) (ascii ''Authorization'') = None)
   \<and> (\<forall>req \<in> set (sent (trace (score_image_with_http w p u (Some t) parameters))).
      map_of (headers req) (ascii ''Authorization'') = Some (ascii ''Bearer'' @ [32] @ t))"
  by (auto simp add: sent_score the_request_def the_headers_def ascii_def
      split: file_state.splits)

text \<open>With the token \<^verbatim>\<open>abc123\<close> a request is sent and its header is \<^verbatim>\<open>Bearer abc123\<close>.\<close>

theorem authorization_header_witness:
  "sent (trace (score_image_with_http (serving cat_jpg 200 cat_reply)
       (ascii ''cat.jpg'') localhost (Some (ascii ''abc123'')) (PyDict [])))
     = [the_request cat_jpg localhost (Some (ascii ''abc123'')) (PyDict [])]
   \<and> map_of (headers (the_request cat_jpg localhost (Some (ascii ''abc123'')) (PyDict [])))
       (ascii ''Authorization'') = Some (ascii ''Bearer abc123'')
   \<and> sent (trace (score_image_with_http (serving cat_jpg 200 cat_reply)
       (ascii ''cat.jpg'') localhost None (PyDict [])))
     = [the_request cat_jpg localhost None (PyDict [])]
   \<and> map_of (headers (the_request cat_jpg localhost None (PyDict [])))
       (ascii ''Authorization'') = None"
proof -
  let ?w = "serving cat_jpg 200 cat_reply"
  have s1: "sent (trace (score_image_with_http ?w (ascii ''cat.jpg'') localhost
              (Some (ascii ''abc123'')) (PyDict [])))
            = [the_request cat_jpg localhost (Some (ascii ''abc123'')) (PyDict [])]"
    by (simp add: score_serving)
  have s2: "sent (trace (score_image_with_http ?w (ascii ''cat.jpg'') localhost None (PyDict [])))
            = [the_request cat_jpg localhost None (PyDict [])]"
    by (simp add: score_serving)
  from authorization_header [of ?w "ascii ''cat.jpg''" localhost "PyDict []" "ascii ''abc123''"]
  show ?thesis
    unfolding s1 s2 by (simp add: ascii_def)
qed

text \<open>
  C5 (as amended). Whenever the function returns, it returns \<^verbatim>\<open>result[0]\<close> of the parsed
  response body as it is, with no inner decoding applied: the first element of the outer
  array when the body is an array, the first character when the body is a JSON string;
  what it returns is a text, and a text that \<^verbatim>\<open>json.loads\<close> reads within the limits of the
  interpreter (JSON in which \<^verbatim>\<open>NaN\<close>, \<^verbatim>\<open>Infinity\<close> and \<^verbatim>\<open>-Infinity\<close> may stand for numbers).
\<close>

theorem returns_first_item_unparsed:
  assumes "parse_response lim r = Inr v"
  shows "\<exists>parsed s. json_loads lim (r_text r) = Some parsed \<and> getitem0 parsed = Inr v
           \<and> v = PyStr s \<and> json_loads lim s \<noteq> None
           \<and> (case parsed of
                 PyList (x # xs) \<Rightarrow> v = x
               | PyStr (c # cs) \<Rightarrow> v = PyStr [c]
               | _ \<Rightarrow> False)"
  using assms
  by (auto simp add: response_eval split: option.splits pyval.splits list.splits sum.splits)

text \<open>The doubly encoded cat result is such a response.\<close>

theorem returns_first_item_unparsed_witness:
  "parse_response usual_limits \<lparr>status_code = 200, r_text = cat_reply\<rparr>
     = Inr (PyStr (ascii ''{\"label\":\"cat\",\"score\":0.91}''))
   \<and> (\<exists>parsed s. json_loads usual_limits cat_reply = Some parsed
         \<and> getitem0 parsed = Inr (PyStr (ascii ''{\"label\":\"cat\",\"score\":0.91}''))
         \<and> PyStr (ascii ''{\"label\":\"cat\",\"score\":0.91}'') = PyStr s
         \<and> json_loads usual_limits s \<noteq> None
         \<and> (case parsed of
               PyList (x # xs) \<Rightarrow> PyStr (ascii ''{\"label\":\"cat\",\"score\":0.91}'') = x
             | PyStr (c # cs) \<Rightarrow> PyStr (ascii ''{\"label\":\"cat\",\"score\":0.91}'') = PyStr [c]
             | _ \<Rightarrow> False))"
  using returns_first_item_unparsed [OF cat_reply_parsed [of 200]] cat_reply_parsed [of 200] by simp

text \<open>
  C5 as stated fails twice. The body \<^verbatim>\<open>"9z"\<close> is accepted although it has no outer array,
  and what is returned is the first character of the string. The body \<^verbatim>\<open>["NaN"]\<close> is
  accepted and its first element returned, the text \<^verbatim>\<open>NaN\<close>, which is not valid JSON.
\<close>

theorem first_character_returned:
  "json_loads usual_limits (ascii ''\"9z\"'') = Some (PyStr (ascii ''9z''))
   \<and> parse_response usual_limits \<lparr>status_code = 200, r_text = ascii ''\"9z\"''\<rparr>
       = Inr (PyStr (ascii ''9''))
   \<and> parse_response usual_limits \<lparr>status_code = 200, r_text = ascii ''[\"NaN\"]''\<rparr>
       = Inr (PyStr (ascii ''NaN''))
   \<and> \<not> valid_json (ascii ''NaN'')"
  using string_body_9z constant_items(3,4) by simp



text \<open>
  C7. The status code of the response never matters: changing it changes neither how the
  response is decoded nor what the call returns. A status 500 with the doubly encoded
  cat result returns the inner text, and a status 200 with the body \<^verbatim>\<open>{"x":1}\<close> fails.
\<close>

theorem status_code_ignored:
  "parse_response lim (r\<lparr>status_code := s\<rparr>) = parse_response lim r
   \<and> result (score_image_with_http (with_status s w) p u key parameters)
       = result (score_image_with_http w p u key parameters)
   \<and> result (score_image_with_http (serving cat_jpg 500 cat_reply)
         (ascii ''cat.jpg'') localhost None (PyDict []))
       = Inr (PyStr (ascii ''{\"label\":\"cat\",\"score\":0.91}''))
   \<and> result (score_image_with_http (serving cat_jpg 200 (ascii ''{\"x\":1}''))
         (ascii ''cat.jpg'') localhost None (PyDict []))
       = Inl (malformed (ascii ''{\"x\":1}''))"
proof -
  have a: "parse_response lim (r\<lparr>status_code := s\<rparr>) = parse_response lim r" for r lim
    by (simp add: parse_response_def split: sum.splits)
  have b: "result (score_image_with_http (with_status s w) p u key parameters)
       = result (score_image_with_http w p u key parameters)"
    by (simp add: score_cases with_status_def a split: file_state.splits sum.splits)
  show ?thesis
    using a b by (simp add: score_serving cat_reply_parsed object_body_malformed)
qed

text \<open>
  C8. When the file cannot be opened, or cannot be read, the call raises that very I/O
  error and sends no request (the only events are the opening and the closing of the
  file, when it was opened at all); and whatever the world, no call leaves a file handle
  open.
\<close>

theorem io_error_propagates:
  "result (score_image_with_http (w\<lparr>files := (files w)(p := OpenFails msg)\<rparr>) p u key parameters)
     = Inl (OSError msg)
   \<and> trace (score_image_with_http (w\<lparr>files := (files w)(p := OpenFails msg)\<rparr>) p u key parameters)
     = []
   \<and> result (score_image_with_http (w\<lparr>files := (files w)(p := ReadFails msg)\<rparr>) p u key parameters)
     = Inl (OSError msg)
   \<and> trace (score_image_with_http (w\<lparr>files := (files w)(p := ReadFails msg)\<rparr>) p u key parameters)
     = [Opened p, Closed p]
   \<and> open_handles [] (trace (score_image_with_http w p u key parameters)) = []"
  by (simp add: score_cases split: file_state.splits)

text \<open>
  C9. A call leaves the object bound to \<^verbatim>\<open>parameters\<close> as it found it, so the default kept
  in the function object is never changed, by one call or by many; every request sent by
  a series of calls that rely on the default carries the empty \<^verbatim>\<open>parameters\<close> object.
\<close>

theorem parameters_never_mutated:
  "parameters_after (score_image_with_http w p u key parameters) = parameters
   \<and> snd (call_score_image_with_http f w p u key arg) = f
   \<and> snd (call_with_defaults f calls) = f
   \<and> (\<forall>out \<in> set (fst (call_with_defaults def_score_image_with_http calls)).
        \<forall>req \<in> set (sent (trace out)).
          \<exists>field. data req = json_dumps (PyList [PyDict
            [(ascii ''image_in_base64'', PyStr field), (ascii ''parameters'', PyDict [])]]))"
  using call_with_defaults_bodies [of calls]
  by (simp add: call_default_unchanged call_with_defaults_unchanged score_cases
      split: file_state.splits)

text \<open>Two calls in a row: both bodies carry \<^verbatim>\<open>"parameters": {}\<close>.\<close>

theorem parameters_never_mutated_witness:
  "map (\<lambda>out. sent (trace out)) (fst (call_with_defaults def_score_image_with_http two_calls))
     = [[the_request cat_jpg localhost None (PyDict [])],
        [the_request man_jpg localhost (Some (ascii ''abc123'')) (PyDict [])]]
   \<and> (\<exists>field. data (the_request man_jpg localhost (Some (ascii ''abc123'')) (PyDict []))
         = json_dumps (PyList [PyDict
            [(ascii ''image_in_base64'', PyStr field), (ascii ''parameters'', PyDict [])]]))
   \<and> snd (call_with_defaults def_score_image_with_http two_calls) = def_score_image_with_http"
proof -
  have m: "map (\<lambda>out. sent (trace out))
             (fst (call_with_defaults def_score_image_with_http two_calls))
     = [[the_request cat_jpg localhost None (PyDict [])],
        [the_request man_jpg localhost (Some (ascii ''abc123'')) (PyDict [])]]"
    by (simp add: two_calls_def call_score_image_with_http_def def_score_image_with_http_def
        score_serving split_beta Let_def)
  note t = parameters_never_mutated [where calls = two_calls and f = def_score_image_with_http]
  have "\<forall>reqs \<in> set (map (\<lambda>out. sent (trace out))
             (fst (call_with_defaults def_score_image_with_http two_calls))).
          \<forall>req \<in> set reqs.
          \<exists>field. data req = json_dumps (PyList [PyDict
            [(ascii ''image_in_base64'', PyStr field), (ascii ''parameters'', PyDict [])]])"
    using t by auto
  then show ?thesis
    unfolding m using m t by simp
qed

text \<open>
  C10. Decoding a response either returns (a text) or raises the one error with the
  response text, whatever the limits of the interpreter: whichever exception arises in
  the \<^verbatim>\<open>try\<close> block, the \<^verbatim>\<open>KeyError\<close> of indexing an object, the \<^verbatim>\<open>TypeError\<close> of indexing a
  number or of parsing a first element that is no string, the \<^verbatim>\<open>IndexError\<close> of an empty
  array, the \<^verbatim>\<open>JSONDecodeError\<close> of a text that is not JSON, it is that error that leaves
  the step.
\<close>

theorem only_value_error_escapes:
  "((\<exists>s. parse_response lim r = Inr (PyStr s))
      \<or> parse_response lim r = Inl (malformed (r_text r)))
   \<and> try_block usual_limits (ascii ''{\"x\":1}'') = Inl KeyError
   \<and> parse_response lim \<lparr>status_code = st, r_text = ascii ''{\"x\":1}''\<rparr>
       = Inl (malformed (ascii ''{\"x\":1}''))
   \<and> try_block usual_limits (ascii ''5'') = Inl TypeError
   \<and> parse_response lim \<lparr>status_code = st, r_text = ascii ''5''\<rparr> = Inl (malformed (ascii ''5''))
   \<and> try_block usual_limits (ascii ''[1]'') = Inl TypeError
   \<and> parse_response lim \<lparr>status_code = st, r_text = ascii ''[1]''\<rparr>
       = Inl (malformed (ascii ''[1]''))
   \<and> try_block usual_limits (ascii ''[]'') = Inl IndexError
   \<and> parse_response lim \<lparr>status_code = st, r_text = ascii ''[]''\<rparr>
       = Inl (malformed (ascii ''[]''))
   \<and> try_block usual_limits (ascii ''nope'') = Inl JSONDecodeError
   \<and> parse_response lim \<lparr>status_code = st, r_text = ascii ''nope''\<rparr>
       = Inl (malformed (ascii ''nope''))"
proof -
  have g: "(\<exists>s. parse_response lim r = Inr (PyStr s))
      \<or> parse_response lim r = Inl (malformed (r_text r))"
    by (auto simp add: response_eval malformed_def
        split: option.splits pyval.splits list.splits sum.splits)
  have c: "\<exists>e. try_block lim t = Inl e
      \<Longrightarrow> parse_response lim \<lparr>status_code = st, r_text = t\<rparr> = Inl (malformed t)"
    for t
    by (auto simp add: parse_response_def malformed_def)
  have x: "\<exists>e. try_block lim (ascii ''{\"x\":1}'') = Inl e"
    by (cases "recursion_limit lim = Some 0") (simp_all add: response_eval json_eval)
  have f: "\<exists>e. try_block lim (ascii ''5'') = Inl e"
    by (cases "recursion_limit lim = Some 0") (simp_all add: response_eval json_eval)
  have o: "\<exists>e. try_block lim (ascii ''[1]'') = Inl e"
    by (cases "recursion_limit lim = Some 0") (simp_all add: response_eval json_eval)
  have n: "\<exists>e. try_block lim (ascii ''[]'') = Inl e"
    by (cases "recursion_limit lim = Some 0") (simp_all add: response_eval json_eval)
  have p: "\<exists>e. try_block lim (ascii ''nope'') = Inl e"
    by (cases "recursion_limit lim = Some 0") (simp_all add: response_eval json_eval)
  note e = try_block_examples(1,2,3,4,5)
  show ?thesis
    using g e c [OF x] c [OF f] c [OF o] c [OF n] c [OF p] by simp
qed

end
